theory Spec2Isabelle
  imports Main "HOL-Library.Multiset"
begin

section \<open>Errors raised through HttpExceptionFactory\<close>

text \<open>
  The controllers and services raise their failures through
  \<open>HttpExceptionFactory.notFound\<close>, \<open>.unauthorized\<close> and \<open>.paramError\<close>, each with a
  message. An exception becomes a value: the left summand of a result.
\<close>

datatype http_error =
    NotFound string
  | Unauthorized string
  | ParamError string

text \<open>
  The source's message literals are Chinese text; a \<^typ>\<open>string\<close> holds bytes, so each
  literal is written as its UTF-8 bytes.
\<close>

definition msg_user_not_found :: string where
  "msg_user_not_found = [CHR 0xE7, CHR 0x94, CHR 0xA8, CHR 0xE6, CHR 0x88, CHR 0xB7, CHR 0xE4,
     CHR 0xB8, CHR 0x8D, CHR 0xE5, CHR 0xAD, CHR 0x98, CHR 0xE5, CHR 0x9C, CHR 0xA8]"

definition msg_no_permission :: string where
  "msg_no_permission = [CHR 0xE6, CHR 0x9A, CHR 0x82, CHR 0xE6, CHR 0x97, CHR 0xA0, CHR 0xE6,
     CHR 0x9D, CHR 0x83, CHR 0xE9, CHR 0x99, CHR 0x90]"

definition msg_root_not_deletable :: string where
  "msg_root_not_deletable = [CHR 0xE8, CHR 0xB6, CHR 0x85, CHR 0xE7, CHR 0xBA, CHR 0xA7,
     CHR 0xE7, CHR 0xAE, CHR 0xA1, CHR 0xE7, CHR 0x90, CHR 0x86, CHR 0xE5, CHR 0x91, CHR 0x98,
     CHR 0xE4, CHR 0xB8, CHR 0x8D, CHR 0xE5, CHR 0x8F, CHR 0xAF, CHR 0xE5, CHR 0x88, CHR 0xA0,
     CHR 0xE9, CHR 0x99, CHR 0xA4, CHR '':'', CHR '' '']"

definition msg_clear_cache_failed :: string where
  "msg_clear_cache_failed = [CHR 0xE6, CHR 0xB8, CHR 0x85, CHR 0xE7, CHR 0x90, CHR 0x86,
     CHR 0xE7, CHR 0x94, CHR 0xA8, CHR 0xE6, CHR 0x88, CHR 0xB7, CHR 0xE7, CHR 0xBC, CHR 0x93,
     CHR 0xE5, CHR 0xAD, CHR 0x98, CHR 0xE5, CHR 0xA4, CHR 0xB1, CHR 0xE8, CHR 0xB4, CHR 0xA5,
     CHR '':'', CHR '' '']"

definition msg_need_login_method :: string where
  "msg_need_login_method = [CHR 0xE8, CHR 0x87, CHR 0xB3, CHR 0xE5, CHR 0xB0, CHR 0x91, CHR 0xE9,
     CHR 0x9C, CHR 0x80, CHR 0xE8, CHR 0xA6, CHR 0x81, CHR 0xE5, CHR 0x90, CHR 0xAF, CHR 0xE7,
     CHR 0x94, CHR 0xA8, CHR 0xE4, CHR 0xB8, CHR 0x80, CHR 0xE7, CHR 0xA7, CHR 0x8D, CHR 0xE7,
     CHR 0x99, CHR 0xBB, CHR 0xE5, CHR 0xBD, CHR 0x95, CHR 0xE6, CHR 0x96, CHR 0xB9, CHR 0xE5,
     CHR 0xBC, CHR 0x8F]"

definition msg_default_not_allowed :: string where
  "msg_default_not_allowed = [CHR 0xE9, CHR 0xBB, CHR 0x98, CHR 0xE8, CHR 0xAE, CHR 0xA4,
     CHR 0xE7, CHR 0x99, CHR 0xBB, CHR 0xE5, CHR 0xBD, CHR 0x95, CHR 0xE6, CHR 0x96, CHR 0xB9,
     CHR 0xE5, CHR 0xBC, CHR 0x8F, CHR 0xE5, CHR 0xBF, CHR 0x85, CHR 0xE9, CHR 0xA1, CHR 0xBB,
     CHR 0xE5, CHR 0x9C, CHR 0xA8, CHR 0xE5, CHR 0x85, CHR 0x81, CHR 0xE8, CHR 0xAE, CHR 0xB8,
     CHR 0xE7, CHR 0x9A, CHR 0x84, CHR 0xE7, CHR 0x99, CHR 0xBB, CHR 0xE5, CHR 0xBD, CHR 0x95,
     CHR 0xE6, CHR 0x96, CHR 0xB9, CHR 0xE5, CHR 0xBC, CHR 0x8F, CHR 0xE5, CHR 0x88, CHR 0x97,
     CHR 0xE8, CHR 0xA1, CHR 0xA8, CHR 0xE4, CHR 0xB8, CHR 0xAD]"

definition msg_need_register_method :: string where
  "msg_need_register_method = [CHR 0xE8, CHR 0x87, CHR 0xB3, CHR 0xE5, CHR 0xB0, CHR 0x91,
     CHR 0xE9, CHR 0x9C, CHR 0x80, CHR 0xE8, CHR 0xA6, CHR 0x81, CHR 0xE5, CHR 0x90, CHR 0xAF,
     CHR 0xE7, CHR 0x94, CHR 0xA8, CHR 0xE4, CHR 0xB8, CHR 0x80, CHR 0xE7, CHR 0xA7, CHR 0x8D,
     CHR 0xE6, CHR 0xB3, CHR 0xA8, CHR 0xE5, CHR 0x86, CHR 0x8C, CHR 0xE6, CHR 0x96, CHR 0xB9,
     CHR 0xE5, CHR 0xBC, CHR 0x8F]"

definition msg_invalid_login_method :: string where
  "msg_invalid_login_method = [CHR 0xE6, CHR 0x97, CHR 0xA0, CHR 0xE6, CHR 0x95, CHR 0x88,
     CHR 0xE7, CHR 0x9A, CHR 0x84, CHR 0xE7, CHR 0x99, CHR 0xBB, CHR 0xE5, CHR 0xBD, CHR 0x95,
     CHR 0xE6, CHR 0x96, CHR 0xB9, CHR 0xE5, CHR 0xBC, CHR 0x8F, CHR '':'', CHR '' '']"

definition msg_invalid_register_method :: string where
  "msg_invalid_register_method = [CHR 0xE6, CHR 0x97, CHR 0xA0, CHR 0xE6, CHR 0x95, CHR 0x88,
     CHR 0xE7, CHR 0x9A, CHR 0x84, CHR 0xE6, CHR 0xB3, CHR 0xA8, CHR 0xE5, CHR 0x86, CHR 0x8C,
     CHR 0xE6, CHR 0x96, CHR 0xB9, CHR 0xE5, CHR 0xBC, CHR 0x8F, CHR '':'', CHR '' '']"

definition msg_payconfig_not_found :: string where
  "msg_payconfig_not_found = [CHR 0xE6, CHR 0x94, CHR 0xAF, CHR 0xE4, CHR 0xBB, CHR 0x98,
     CHR 0xE9, CHR 0x85, CHR 0x8D, CHR 0xE7, CHR 0xBD, CHR 0xAE, CHR 0xE4, CHR 0xB8, CHR 0x8D,
     CHR 0xE5, CHR 0xAD, CHR 0x98, CHR 0xE5, CHR 0x9C, CHR 0xA8]"

section \<open>Payment configuration lookup (PayconfigService.getPayconfig)\<close>

text \<open>
  \<open>BooleanNumberType\<close> is the 0/1 flag of the entities (0 disabled, 1 enabled, as the
  controller documents for the user status); \<open>BooleanNumber.YES\<close> is its enabled value.
  \<open>PayConfigType\<close> is an integer column.
\<close>

type_synonym BooleanNumberType = int
type_synonym PayConfigType = int

definition BooleanNumber_YES :: BooleanNumberType where
  "BooleanNumber_YES = 1"

definition BooleanNumber_NO :: BooleanNumberType where
  "BooleanNumber_NO = 0"

record Payconfig =
  pc_id :: string
  pc_name :: string
  payType :: PayConfigType
  isEnable :: BooleanNumberType
  sort_key :: int
  isDefault :: BooleanNumberType

text \<open>
  The repository is the table's rows in the order the store returns them;
  \<open>repository.findOne({ where })\<close> yields the first row that satisfies every condition of
  \<open>where\<close>, or nothing.
\<close>

definition repository_findOne :: "('r \<Rightarrow> bool) \<Rightarrow> 'r list \<Rightarrow> 'r option" where
  "repository_findOne wh rows = List.find wh rows"

definition getPayconfig :: "Payconfig list \<Rightarrow> PayConfigType \<Rightarrow> http_error + Payconfig" where
  "getPayconfig repository pt =
     (case repository_findOne (\<lambda>c. isEnable c = BooleanNumber_YES \<and> payType c = pt) repository of
        None \<Rightarrow> Inl (NotFound msg_payconfig_not_found)
      | Some payconfig \<Rightarrow> Inr payconfig)"

section \<open>Login settings validation (UserController.validateLoginSettings)\<close>

text \<open>
  A login method is an identifier of \<open>LOGIN_TYPE\<close>; the constant itself is declared
  outside the files at hand, so \<open>Object.values(LOGIN_TYPE)\<close> is the parameter
  \<open>validLoginTypes\<close>. The request body may leave a property out: a missing list or a
  missing default is \<open>None\<close>.
\<close>

record LoginSettingsConfig =
  allowedLoginMethods :: "string list option"
  allowedRegisterMethods :: "string list option"
  defaultLoginMethod :: "string option"
  allowMultipleLogin :: bool
  showPolicyAgreement :: bool

text \<open>\<open>Array.prototype.includes\<close> with an argument that may be \<open>undefined\<close>.\<close>

definition array_includes :: "string list \<Rightarrow> string option \<Rightarrow> bool" where
  "array_includes xs v = (case v of None \<Rightarrow> False | Some m \<Rightarrow> m \<in> set xs)"

text \<open>
  The two \<open>for ... of\<close> loops: the first method that is not a valid login type raises,
  with the message prefix of the loop.
\<close>

fun check_methods :: "string list \<Rightarrow> string \<Rightarrow> string list \<Rightarrow> http_error + unit" where
  "check_methods validLoginTypes prefix [] = Inr ()"
| "check_methods validLoginTypes prefix (method # rest) =
     (if method \<notin> set validLoginTypes then Inl (ParamError (prefix @ method))
      else check_methods validLoginTypes prefix rest)"

definition validateLoginSettings :: "string list \<Rightarrow> LoginSettingsConfig \<Rightarrow> http_error + unit" where
  "validateLoginSettings validLoginTypes config =
     (case allowedLoginMethods config of
        None \<Rightarrow> Inl (ParamError msg_need_login_method)
      | Some loginMethods \<Rightarrow>
          if length loginMethods = 0 then Inl (ParamError msg_need_login_method)
          else if \<not> array_includes loginMethods (defaultLoginMethod config)
          then Inl (ParamError msg_default_not_allowed)
          else
            (case allowedRegisterMethods config of
               None \<Rightarrow> Inl (ParamError msg_need_register_method)
             | Some registerMethods \<Rightarrow>
                 if length registerMethods = 0 then Inl (ParamError msg_need_register_method)
                 else
                   (case check_methods validLoginTypes msg_invalid_login_method loginMethods of
                      Inl e \<Rightarrow> Inl e
                    | Inr _ \<Rightarrow>
                        check_methods validLoginTypes msg_invalid_register_method registerMethods)))"

text \<open>The rules of the specification, each as a predicate on the configuration.\<close>

definition is_ValidationError :: "http_error \<Rightarrow> bool" where
  "is_ValidationError e = (case e of ParamError _ \<Rightarrow> True | _ \<Rightarrow> False)"

definition empty_or_missing :: "string list option \<Rightarrow> bool" where
  "empty_or_missing xs = (case xs of None \<Rightarrow> True | Some ys \<Rightarrow> ys = [])"

definition listed_methods :: "LoginSettingsConfig \<Rightarrow> string list" where
  "listed_methods config =
     (case allowedLoginMethods config of None \<Rightarrow> [] | Some xs \<Rightarrow> xs) @
     (case allowedRegisterMethods config of None \<Rightarrow> [] | Some xs \<Rightarrow> xs)"

definition default_is_allowed :: "LoginSettingsConfig \<Rightarrow> bool" where
  "default_is_allowed config =
     (case allowedLoginMethods config of
        None \<Rightarrow> False
      | Some xs \<Rightarrow> array_includes xs (defaultLoginMethod config))"

definition violates_login_rules :: "string list \<Rightarrow> LoginSettingsConfig \<Rightarrow> bool" where
  "violates_login_rules validLoginTypes config =
     (empty_or_missing (allowedLoginMethods config) \<or>
      empty_or_missing (allowedRegisterMethods config) \<or>
      \<not> default_is_allowed config \<or>
      list_ex (\<lambda>m. m \<notin> set validLoginTypes) (listed_methods config))"

section \<open>JavaScript values the code computes with\<close>

text \<open>
  Numbers: every number the modelled code handles is an integer or \<open>NaN\<close>; \<open>None\<close> is
  \<open>NaN\<close>, and arithmetic with \<open>NaN\<close> gives \<open>NaN\<close>.
\<close>

type_synonym jsnum = "int option"

definition num_add :: "jsnum \<Rightarrow> jsnum \<Rightarrow> jsnum" where
  "num_add a b = (case (a, b) of (Some x, Some y) \<Rightarrow> Some (x + y) | _ \<Rightarrow> None)"

definition num_sub :: "jsnum \<Rightarrow> jsnum \<Rightarrow> jsnum" where
  "num_sub a b = (case (a, b) of (Some x, Some y) \<Rightarrow> Some (x - y) | _ \<Rightarrow> None)"

definition num_mul :: "jsnum \<Rightarrow> jsnum \<Rightarrow> jsnum" where
  "num_mul a b = (case (a, b) of (Some x, Some y) \<Rightarrow> Some (x * y) | _ \<Rightarrow> None)"

text \<open>\<open>Math.floor(a / d)\<close> for a positive integer constant \<open>d\<close>.\<close>

definition num_floor_div :: "jsnum \<Rightarrow> int \<Rightarrow> jsnum" where
  "num_floor_div a d = (case a of Some x \<Rightarrow> Some (x div d) | None \<Rightarrow> None)"

text \<open>\<open>a <= b\<close>: false as soon as one side is \<open>NaN\<close>.\<close>

definition num_le :: "jsnum \<Rightarrow> jsnum \<Rightarrow> bool" where
  "num_le a b = (case (a, b) of (Some x, Some y) \<Rightarrow> x \<le> y | _ \<Rightarrow> False)"

text \<open>Number to string, as a template literal converts an integer or \<open>NaN\<close>.\<close>

definition digit_char :: "nat \<Rightarrow> char" where
  "digit_char d =
     (if d = 0 then CHR ''0'' else if d = 1 then CHR ''1'' else if d = 2 then CHR ''2''
      else if d = 3 then CHR ''3'' else if d = 4 then CHR ''4'' else if d = 5 then CHR ''5''
      else if d = 6 then CHR ''6'' else if d = 7 then CHR ''7'' else if d = 8 then CHR ''8''
      else CHR ''9'')"

fun nat_str :: "nat \<Rightarrow> string" where
  "nat_str n = (if n < 10 then [digit_char n] else nat_str (n div 10) @ [digit_char (n mod 10)])"

declare nat_str.simps [simp del]

definition int_str :: "int \<Rightarrow> string" where
  "int_str i = (if i < 0 then CHR ''-'' # nat_str (nat (- i)) else nat_str (nat i))"

definition num_str :: "jsnum \<Rightarrow> string" where
  "num_str a = (case a of None \<Rightarrow> ''NaN'' | Some i \<Rightarrow> int_str i)"

text \<open>
  \<open>parseInt(s, radix)\<close>: leading white space is skipped, a sign is read, then the longest
  prefix of digits of the radix; no digit at all gives \<open>NaN\<close>. Without a radix
  (\<open>None\<close>) the radix is 10, or 16 after a \<open>0x\<close> prefix. White space is the ASCII white
  space.
\<close>

definition is_ws :: "char \<Rightarrow> bool" where
  "is_ws c = (c = CHR '' '' \<or> c = CHR 0x09 \<or> c = CHR 0x0A \<or> c = CHR 0x0B \<or> c = CHR 0x0C \<or> c = CHR 0x0D)"

definition digit_of :: "nat \<Rightarrow> char \<Rightarrow> nat option" where
  "digit_of radix c =
     (let n = (of_char c :: nat);
          v = (if 48 \<le> n \<and> n \<le> 57 then Some (n - 48)
               else if 97 \<le> n \<and> n \<le> 122 then Some (n - 87)
               else if 65 \<le> n \<and> n \<le> 90 then Some (n - 55)
               else None)
      in case v of None \<Rightarrow> None | Some d \<Rightarrow> if d < radix then Some d else None)"

definition digits_value :: "nat \<Rightarrow> string \<Rightarrow> nat" where
  "digits_value radix ds =
     foldl (\<lambda>a c. case digit_of radix c of Some d \<Rightarrow> a * radix + d | None \<Rightarrow> a) 0 ds"

definition parse_digits :: "nat \<Rightarrow> bool \<Rightarrow> string \<Rightarrow> jsnum" where
  "parse_digits radix neg s =
     (let ds = takeWhile (\<lambda>c. digit_of radix c \<noteq> None) s
      in if ds = [] then None
         else Some ((if neg then - 1 else 1) * int (digits_value radix ds)))"

definition strip_hex_prefix :: "string \<Rightarrow> string option" where
  "strip_hex_prefix s =
     (case s of
        c # d # rest \<Rightarrow> if c = CHR ''0'' \<and> (d = CHR ''x'' \<or> d = CHR ''X'') then Some rest else None
      | _ \<Rightarrow> None)"

definition parseInt :: "string \<Rightarrow> nat option \<Rightarrow> jsnum" where
  "parseInt s radix =
     (let t = dropWhile is_ws s;
          neg = (case t of c # _ \<Rightarrow> c = CHR ''-'' | [] \<Rightarrow> False);
          u = (case t of c # r \<Rightarrow> if c = CHR ''-'' \<or> c = CHR ''+'' then r else t | [] \<Rightarrow> [])
      in case radix of
           Some r \<Rightarrow> parse_digits r neg u
         | None \<Rightarrow>
             (case strip_hex_prefix u of
                Some rest \<Rightarrow> parse_digits 16 neg rest
              | None \<Rightarrow> parse_digits 10 neg u))"

text \<open>\<open>parseInt\<close> of a value that may be \<open>undefined\<close>: the string "undefined" has no digit.\<close>

definition parseInt_opt :: "string option \<Rightarrow> jsnum" where
  "parseInt_opt v = (case v of None \<Rightarrow> None | Some s \<Rightarrow> parseInt s None)"

text \<open>\<open>String.prototype.split\<close> on a one-character separator, and \<open>trim\<close>.\<close>

fun split_on :: "char \<Rightarrow> string \<Rightarrow> string list" where
  "split_on sep [] = [[]]"
| "split_on sep (c # cs) =
     (if c = sep then [] # split_on sep cs
      else (case split_on sep cs of p # ps \<Rightarrow> (c # p) # ps | [] \<Rightarrow> [[c]]))"

definition trim :: "string \<Rightarrow> string" where
  "trim s = rev (dropWhile is_ws (rev (dropWhile is_ws s)))"

text \<open>\<open>Array.prototype.join\<close> on strings.\<close>

fun join :: "string \<Rightarrow> string list \<Rightarrow> string" where
  "join sep [] = []"
| "join sep [x] = x"
| "join sep (x # y # ys) = x @ sep @ join sep (y # ys)"

text \<open>
  \<open>Array.prototype.sort(compareFn)\<close>: a stable sort; a comparison that returns \<open>NaN\<close>
  counts as 0. An element moves behind another only when the comparison of the two is
  positive. With a comparison function that is a consistent ordering, every stable sort
  returns this list.
\<close>

definition comes_after :: "('a \<Rightarrow> 'a \<Rightarrow> jsnum) \<Rightarrow> 'a \<Rightarrow> 'a \<Rightarrow> bool" where
  "comes_after compareFn x y = (case compareFn x y of Some v \<Rightarrow> 0 < v | None \<Rightarrow> False)"

fun insert_sorted :: "('a \<Rightarrow> 'a \<Rightarrow> jsnum) \<Rightarrow> 'a \<Rightarrow> 'a list \<Rightarrow> 'a list" where
  "insert_sorted compareFn x [] = [x]"
| "insert_sorted compareFn x (y # ys) =
     (if comes_after compareFn x y then y # insert_sorted compareFn x ys else x # y # ys)"

definition array_sort :: "('a \<Rightarrow> 'a \<Rightarrow> jsnum) \<Rightarrow> 'a list \<Rightarrow> 'a list" where
  "array_sort compareFn xs = foldr (insert_sorted compareFn) xs []"

text \<open>
  Objects: an entity or a response body is a finite map from property names to values; a
  property that is absent reads as \<open>undefined\<close>.
\<close>

datatype val = VStr string | VNum int | VBool bool | VNull

type_synonym obj = "string \<rightharpoonup> val"

text \<open>JavaScript truthiness of a property read.\<close>

definition truthy :: "val option \<Rightarrow> bool" where
  "truthy v =
     (case v of
        None \<Rightarrow> False
      | Some (VStr s) \<Rightarrow> s \<noteq> []
      | Some (VNum n) \<Rightarrow> n \<noteq> 0
      | Some (VBool b) \<Rightarrow> b
      | Some VNull \<Rightarrow> False)"

text \<open>The string that \<open>join\<close> and a template literal make of a property read.\<close>

definition join_str :: "val option \<Rightarrow> string" where
  "join_str v =
     (case v of
        None \<Rightarrow> []
      | Some (VStr s) \<Rightarrow> s
      | Some (VNum n) \<Rightarrow> int_str n
      | Some (VBool b) \<Rightarrow> (if b then ''true'' else ''false'')
      | Some VNull \<Rightarrow> [])"

text \<open>
  Modelled from the spec: \<open>isEnabled\<close> of \<open>@common/utils/is.util\<close> is not among the files.
  A flag is enabled when it is \<open>BooleanNumber.YES\<close> or \<open>true\<close>.
\<close>

definition isEnabled :: "val option \<Rightarrow> bool" where
  "isEnabled v = (v = Some (VNum BooleanNumber_YES) \<or> v = Some (VBool True))"

section \<open>User administration (UserController)\<close>

subsection \<open>The user service\<close>

text \<open>
  The user table is the list of its rows. \<open>UserService\<close> and the \<open>BaseService\<close> it
  extends are not among the files; the controller's calls into them are modelled below,
  each from the words of the specification.
\<close>

type_synonym user_table = "obj list"

record FindOptions =
  excludeFields :: "string list"
  relations :: "string list"

definition has_id :: "string \<Rightarrow> obj \<Rightarrow> bool" where
  "has_id i u = (u ''id'' = Some (VStr i))"

text \<open>\<open>userService.findOne({ where: { id } })\<close>: the row with this id, if any.\<close>

definition userService_findOne :: "user_table \<Rightarrow> string \<Rightarrow> obj option" where
  "userService_findOne rows i = repository_findOne (has_id i) rows"

text \<open>\<open>userService.findAll({ where: { id: In(ids) } })\<close>: the rows whose id is listed.\<close>

definition userService_findAll_in :: "user_table \<Rightarrow> string list \<Rightarrow> obj list" where
  "userService_findAll_in rows ids = filter (\<lambda>u. list_ex (\<lambda>i. has_id i u) ids) rows"

text \<open>The projection that leaves the properties of \<open>excludeFields\<close> out.\<close>

definition exclude_fields :: "string list \<Rightarrow> obj \<Rightarrow> obj" where
  "exclude_fields fs u = (\<lambda>k. if k \<in> set fs then None else u k)"

text \<open>
  Modelled from the spec: \<open>BaseService.findOneById\<close> is not among the files. It reads the
  row by id and returns it without the fields of \<open>excludeFields\<close>; loading the relations
  adds no column of the user and is left out.
\<close>

definition userService_findOneById :: "user_table \<Rightarrow> string \<Rightarrow> FindOptions \<Rightarrow> obj option" where
  "userService_findOneById rows i opts =
     map_option (exclude_fields (excludeFields opts)) (repository_findOne (has_id i) rows)"

text \<open>
  Modelled from the spec: \<open>BaseService.updateById\<close> is not among the files. It loads the
  target, applies the fields of the patch, persists the row and returns its projection.
\<close>

definition userService_updateById ::
  "user_table \<Rightarrow> string \<Rightarrow> obj \<Rightarrow> FindOptions \<Rightarrow> (http_error + obj) \<times> user_table" where
  "userService_updateById rows i dto opts =
     (case repository_findOne (has_id i) rows of
        None \<Rightarrow> (Inl (NotFound msg_user_not_found), rows)
      | Some u \<Rightarrow>
          (let saved = u ++ dto
           in (Inr (exclude_fields (excludeFields opts) saved),
               map (\<lambda>r. if has_id i r then saved else r) rows)))"

text \<open>
  Modelled from the spec: \<open>BaseService.delete\<close> and \<open>deleteMany\<close> are not among the files.
  They delete the rows with the given id(s) and return whether a row was deleted.
\<close>

definition userService_delete :: "user_table \<Rightarrow> string \<Rightarrow> bool \<times> user_table" where
  "userService_delete rows i = (list_ex (has_id i) rows, filter (\<lambda>r. \<not> has_id i r) rows)"

definition userService_deleteMany :: "user_table \<Rightarrow> string list \<Rightarrow> bool \<times> user_table" where
  "userService_deleteMany rows ids =
     (list_ex (\<lambda>r. list_ex (\<lambda>i. has_id i r) ids) rows,
      filter (\<lambda>r. \<not> list_ex (\<lambda>i. has_id i r) ids) rows)"

text \<open>
  Modelled from the spec: \<open>UserService.resetPassword\<close> is not among the files. It loads the
  target, stores the hash of the new password in the credential field, persists the row
  and returns its projection. The hash function is a parameter.
\<close>

definition userService_resetPassword ::
  "(string \<Rightarrow> string) \<Rightarrow> user_table \<Rightarrow> string \<Rightarrow> string \<Rightarrow> (http_error + obj) \<times> user_table" where
  "userService_resetPassword hash rows i newPassword =
     (case repository_findOne (has_id i) rows of
        None \<Rightarrow> (Inl (NotFound msg_user_not_found), rows)
      | Some u \<Rightarrow>
          (let saved = u(''password'' \<mapsto> VStr (hash newPassword))
           in (Inr (exclude_fields [''password''] saved),
               map (\<lambda>r. if has_id i r then saved else r) rows)))"

subsection \<open>The controller's state and collaborators\<close>

text \<open>
  What a request of the controller can change: the user table, the calls made to
  \<open>rolePermissionService.clearUserCache\<close> and the warnings written to the logger.
\<close>

record app_state =
  users :: user_table
  cacheClears :: "string list"
  warnings :: "string list"

text \<open>The logged-in user of the request (\<open>UserPlayground\<close>); only its id is read.\<close>

record UserPlayground =
  playground_id :: string

text \<open>
  \<open>rolePermissionService.clearUserCache(id)\<close> returns a promise; the service is not among
  the files, so how the promise settles is given by the environment: \<open>None\<close> when it
  resolves, \<open>Some message\<close> when it rejects with an error of that message. The call is
  recorded either way.
\<close>

definition clearUserCache :: "string option \<Rightarrow> string \<Rightarrow> app_state \<Rightarrow> (string + unit) \<times> app_state" where
  "clearUserCache settles i s =
     ((case settles of None \<Rightarrow> Inr () | Some m \<Rightarrow> Inl m),
      s\<lparr>cacheClears := cacheClears s @ [i]\<rparr>)"

definition logger_warn :: "string \<Rightarrow> app_state \<Rightarrow> app_state" where
  "logger_warn m s = s\<lparr>warnings := warnings s @ [m]\<rparr>"

subsection \<open>update\<close>

text \<open>
  The result of the handler is fixed before the promise of \<open>clearUserCache\<close> settles: the
  promise is not awaited, and its \<open>catch\<close> handler only writes a warning. The state
  returned is the state once the promise has settled.
\<close>

definition update ::
  "string option \<Rightarrow> string \<Rightarrow> obj \<Rightarrow> UserPlayground \<Rightarrow> app_state \<Rightarrow> (http_error + obj) \<times> app_state" where
  "update settles i updateUserDto currentUser s =
     (case userService_findOne (users s) i of
        None \<Rightarrow> (Inl (NotFound msg_user_not_found), s)
      | Some user \<Rightarrow>
          (case (if isEnabled (user ''isRoot'')
                 then (if playground_id currentUser \<noteq> i
                       then Inl (Unauthorized msg_no_permission)
                       else Inr (userService_updateById (users s) i updateUserDto
                                   \<lparr>excludeFields = [''password''], relations = []\<rparr>))
                 else Inr (userService_updateById (users s) i updateUserDto
                             \<lparr>excludeFields = [''password''], relations = []\<rparr>)) of
             Inl e \<Rightarrow> (Inl e, s)
           | Inr (Inl e, rows) \<Rightarrow> (Inl e, s\<lparr>users := rows\<rparr>)
           | Inr (Inr result, rows) \<Rightarrow>
               (let (cleared, s2) = clearUserCache settles i (s\<lparr>users := rows\<rparr>)
                in (Inr result,
                    case cleared of
                      Inr _ \<Rightarrow> s2
                    | Inl m \<Rightarrow> logger_warn (msg_clear_cache_failed @ m) s2))))"

subsection \<open>remove and batchRemove\<close>

record DeleteResult =
  success :: bool

definition remove :: "string \<Rightarrow> app_state \<Rightarrow> (http_error + DeleteResult) \<times> app_state" where
  "remove dto_id s =
     (case userService_findOne (users s) dto_id of
        Some user \<Rightarrow>
          if isEnabled (user ''isRoot'') then (Inl (Unauthorized msg_no_permission), s)
          else (let (ok, rows) = userService_delete (users s) dto_id
                in (Inr \<lparr>success = ok\<rparr>, s\<lparr>users := rows\<rparr>))
      | None \<Rightarrow> (Inl (NotFound msg_user_not_found), s))"

definition batchRemove :: "string list \<Rightarrow> app_state \<Rightarrow> (http_error + DeleteResult) \<times> app_state" where
  "batchRemove dto_ids s =
     (let found = userService_findAll_in (users s) dto_ids;
          rootUsers = filter (\<lambda>user. isEnabled (user ''isRoot'')) found
      in if length rootUsers > 0
         then (let rootUserIds = map (\<lambda>user. join_str (user ''id'')) rootUsers
               in (Inl (Unauthorized (msg_root_not_deletable @ join '', '' rootUserIds)), s))
         else (let (ok, rows) = userService_deleteMany (users s) dto_ids
               in (Inr \<lparr>success = ok\<rparr>, s\<lparr>users := rows\<rparr>)))"

subsection \<open>Reads: getUserInfo and findOneById\<close>

text \<open>
  \<open>getUserInfo\<close> also asks for the permission codes and the menu tree of the user; both
  services are outside the files and are parameters.
\<close>

record 'm UserInfo =
  info_user :: obj
  info_permissions :: "string list"
  info_menus :: 'm

definition getUserInfo ::
  "(string \<Rightarrow> string list) \<Rightarrow> (string list \<Rightarrow> 'm) \<Rightarrow> UserPlayground \<Rightarrow> app_state
     \<Rightarrow> http_error + 'm UserInfo" where
  "getUserInfo getUserPermissions getMenuTreeByPermissions user s =
     (case userService_findOneById (users s) (playground_id user)
             \<lparr>excludeFields = [''password''], relations = [''role'']\<rparr> of
        None \<Rightarrow> Inl (NotFound msg_user_not_found)
      | Some userInfo \<Rightarrow>
          (let permissionCodes = getUserPermissions (playground_id user);
               menuTree = getMenuTreeByPermissions
                            (if truthy (userInfo ''isRoot'') then [] else permissionCodes)
           in Inr \<lparr>info_user =
                      userInfo(''permissions'' \<mapsto>
                        VNum (if truthy (userInfo ''isRoot'') \<or> length permissionCodes > 0
                              then 1 else 0)),
                    info_permissions = permissionCodes,
                    info_menus = menuTree\<rparr>))"

definition findOneById :: "string \<Rightarrow> app_state \<Rightarrow> http_error + obj" where
  "findOneById i s =
     (case userService_findOneById (users s) i
             \<lparr>excludeFields = [''password'', ''openid''], relations = [''role'']\<rparr> of
        None \<Rightarrow> Inl (NotFound msg_user_not_found)
      | Some result \<Rightarrow> Inr result)"

subsection \<open>resetPasswordAuto\<close>

text \<open>
  \<open>userService.generateRandomPassword()\<close> is not among the files; the password it
  returns at this call is the parameter \<open>randomPassword\<close>.
\<close>

record ResetPasswordResult =
  password :: string

definition resetPasswordAuto ::
  "(string \<Rightarrow> string) \<Rightarrow> string \<Rightarrow> string \<Rightarrow> app_state
     \<Rightarrow> (http_error + ResetPasswordResult) \<times> app_state" where
  "resetPasswordAuto hash randomPassword i s =
     (let (r, rows) = userService_resetPassword hash (users s) i randomPassword;
          s1 = s\<lparr>users := rows\<rparr>
      in case r of
           Inl e \<Rightarrow> (Inl e, s1)
         | Inr _ \<Rightarrow> (Inr \<lparr>password = randomPassword\<rparr>, s1))"

section \<open>Restarting the application (SystemService)\<close>

definition msg_already_restarting :: string where
  "msg_already_restarting = [CHR 0xE5, CHR 0xBA, CHR 0x94, CHR 0xE7, CHR 0x94, CHR 0xA8,
     CHR 0xE6, CHR 0xAD, CHR 0xA3, CHR 0xE5, CHR 0x9C, CHR 0xA8, CHR 0xE9, CHR 0x87, CHR 0x8D,
     CHR 0xE5, CHR 0x90, CHR 0xAF, CHR 0xE4, CHR 0xB8, CHR 0xAD, CHR 0xEF, CHR 0xBC, CHR 0x8C,
     CHR 0xE8, CHR 0xAF, CHR 0xB7, CHR 0xE5, CHR 0x8B, CHR 0xBF, CHR 0xE9, CHR 0x87, CHR 0x8D,
     CHR 0xE5, CHR 0xA4, CHR 0x8D, CHR 0xE6, CHR 0x93, CHR 0x8D, CHR 0xE4, CHR 0xBD, CHR 0x9C]"

definition msg_restart_sent :: string where
  "msg_restart_sent = [CHR 0xE5, CHR 0xBA, CHR 0x94, CHR 0xE7, CHR 0x94, CHR 0xA8, CHR 0xE9,
     CHR 0x87, CHR 0x8D, CHR 0xE5, CHR 0x90, CHR 0xAF, CHR 0xE6, CHR 0x8C, CHR 0x87, CHR 0xE4,
     CHR 0xBB, CHR 0xA4, CHR 0xE5, CHR 0xB7, CHR 0xB2, CHR 0xE5, CHR 0x8F, CHR 0x91, CHR 0xE9,
     CHR 0x80, CHR 0x81, CHR 0xEF, CHR 0xBC, CHR 0x8C, CHR 0xE6, CHR 0x9C, CHR 0x8D, CHR 0xE5,
     CHR 0x8A, CHR 0xA1, CHR 0xE5, CHR 0x8D, CHR 0xB3, CHR 0xE5, CHR 0xB0, CHR 0x86, CHR 0xE9,
     CHR 0x87, CHR 0x8D, CHR 0xE5, CHR 0x90, CHR 0xAF]"

definition msg_restarting_port :: string where
  "msg_restarting_port = [CHR 0xE6, CHR 0xAD, CHR 0xA3, CHR 0xE5, CHR 0x9C, CHR 0xA8, CHR 0xE9,
     CHR 0x87, CHR 0x8D, CHR 0xE5, CHR 0x90, CHR 0xAF, CHR 0xE5, CHR 0xBA, CHR 0x94, CHR 0xE7,
     CHR 0x94, CHR 0xA8, CHR 0xEF, CHR 0xBC, CHR 0x8C, CHR 0xE5, CHR 0xBD, CHR 0x93, CHR 0xE5,
     CHR 0x89, CHR 0x8D, CHR 0xE7, CHR 0xAB, CHR 0xAF, CHR 0xE5, CHR 0x8F, CHR 0xA3, CHR '':'',
     CHR '' '']"

definition msg_pm2_detected :: string where
  "msg_pm2_detected = [CHR 0xE6, CHR 0xA3, CHR 0x80, CHR 0xE6, CHR 0xB5, CHR 0x8B, CHR 0xE5,
     CHR 0x88, CHR 0xB0, CHR ''P'', CHR ''M'', CHR ''2'', CHR 0xE7, CHR 0x8E, CHR 0xAF, CHR 0xE5,
     CHR 0xA2, CHR 0x83, CHR 0xEF, CHR 0xBC, CHR 0x8C, CHR 0xE9, CHR 0x80, CHR 0x9A, CHR 0xE8,
     CHR 0xBF, CHR 0x87, CHR ''P'', CHR ''M'', CHR ''2'', CHR 0xE5, CHR 0x91, CHR 0xBD, CHR 0xE4,
     CHR 0xBB, CHR 0xA4, CHR 0xE9, CHR 0x87, CHR 0x8D, CHR 0xE5, CHR 0x90, CHR 0xAF, CHR 0xE5,
     CHR 0xBA, CHR 0x94, CHR 0xE7, CHR 0x94, CHR 0xA8, CHR '' '']"

definition msg_pm2_failed :: string where
  "msg_pm2_failed = [CHR ''P'', CHR ''M'', CHR ''2'', CHR 0xE9, CHR 0x87, CHR 0x8D, CHR 0xE5,
     CHR 0x90, CHR 0xAF, CHR 0xE5, CHR 0x91, CHR 0xBD, CHR 0xE4, CHR 0xBB, CHR 0xA4, CHR 0xE5,
     CHR 0xA4, CHR 0xB1, CHR 0xE8, CHR 0xB4, CHR 0xA5, CHR '':'', CHR '' '']"

definition msg_pm2_failed_tail :: string where
  "msg_pm2_failed_tail = [CHR 0xEF, CHR 0xBC, CHR 0x8C, CHR 0xE5, CHR 0xB0, CHR 0x9D, CHR 0xE8,
     CHR 0xAF, CHR 0x95, CHR 0xE4, CHR 0xBD, CHR 0xBF, CHR 0xE7, CHR 0x94, CHR 0xA8, CHR 0xE8,
     CHR 0xBF, CHR 0x9B, CHR 0xE7, CHR 0xA8, CHR 0x8B, CHR 0xE9, CHR 0x80, CHR 0x80, CHR 0xE5,
     CHR 0x87, CHR 0xBA, CHR 0xE6, CHR 0x96, CHR 0xB9, CHR 0xE5, CHR 0xBC, CHR 0x8F, CHR 0xE9,
     CHR 0x87, CHR 0x8D, CHR 0xE5, CHR 0x90, CHR 0xAF]"

definition msg_pm2_done :: string where
  "msg_pm2_done = [CHR ''P'', CHR ''M'', CHR ''2'', CHR 0xE9, CHR 0x87, CHR 0x8D, CHR 0xE5,
     CHR 0x90, CHR 0xAF, CHR 0xE5, CHR 0x91, CHR 0xBD, CHR 0xE4, CHR 0xBB, CHR 0xA4, CHR 0xE5,
     CHR 0xB7, CHR 0xB2, CHR 0xE6, CHR 0x89, CHR 0xA7, CHR 0xE8, CHR 0xA1, CHR 0x8C, CHR 0xEF,
     CHR 0xBC, CHR 0x8C, CHR 0xE5, CHR 0xBA, CHR 0x94, CHR 0xE7, CHR 0x94, CHR 0xA8, CHR '' '']"

definition msg_pm2_done_tail :: string where
  "msg_pm2_done_tail = [CHR '' '', CHR 0xE6, CHR 0xAD, CHR 0xA3, CHR 0xE5, CHR 0x9C, CHR 0xA8,
     CHR 0xE9, CHR 0x87, CHR 0x8D, CHR 0xE5, CHR 0x90, CHR 0xAF, CHR ''.'', CHR ''.'', CHR ''.'']"

definition msg_no_pm2 :: string where
  "msg_no_pm2 = [CHR 0xE6, CHR 0x9C, CHR 0xAA, CHR 0xE6, CHR 0xA3, CHR 0x80, CHR 0xE6, CHR 0xB5,
     CHR 0x8B, CHR 0xE5, CHR 0x88, CHR 0xB0, CHR ''P'', CHR ''M'', CHR ''2'', CHR 0xE7, CHR 0x8E,
     CHR 0xAF, CHR 0xE5, CHR 0xA2, CHR 0x83, CHR 0xEF, CHR 0xBC, CHR 0x8C, CHR 0xE9, CHR 0x80,
     CHR 0x9A, CHR 0xE8, CHR 0xBF, CHR 0x87, CHR 0xE8, CHR 0xBF, CHR 0x9B, CHR 0xE7, CHR 0xA8,
     CHR 0x8B, CHR 0xE9, CHR 0x80, CHR 0x80, CHR 0xE5, CHR 0x87, CHR 0xBA, CHR 0xE6, CHR 0x96,
     CHR 0xB9, CHR 0xE5, CHR 0xBC, CHR 0x8F, CHR 0xE9, CHR 0x87, CHR 0x8D, CHR 0xE5, CHR 0x90,
     CHR 0xAF, CHR ''.'', CHR ''.'', CHR ''.'']"

definition msg_restart_error :: string where
  "msg_restart_error = [CHR 0xE9, CHR 0x87, CHR 0x8D, CHR 0xE5, CHR 0x90, CHR 0xAF, CHR 0xE8,
     CHR 0xBF, CHR 0x87, CHR 0xE7, CHR 0xA8, CHR 0x8B, CHR 0xE4, CHR 0xB8, CHR 0xAD, CHR 0xE5,
     CHR 0x8F, CHR 0x91, CHR 0xE7, CHR 0x94, CHR 0x9F, CHR 0xE9, CHR 0x94, CHR 0x99, CHR 0xE8,
     CHR 0xAF, CHR 0xAF, CHR '':'', CHR '' '']"

text \<open>
  The environment of the process: its environment variables (\<open>None\<close> when unset), and
  how a shell command run through \<open>exec\<close> ends: its promise resolves with the standard
  output, rejects with an error, or \<open>exec\<close> throws before there is a promise.
\<close>

datatype exec_result = Resolved string | Rejected string | Threw string

record process_env =
  SERVER_PORT :: "string option"
  PM2_HOME :: "string option"
  PM2_JSON_PROCESSING :: "string option"
  PM2_CLI :: "string option"
  PM2_APP_NAME :: "string option"
  pm2_list :: exec_result

datatype log_entry = LogLine string | WarnLine string | ErrorLine string

text \<open>The callback handed to \<open>setTimeout\<close>, with the variables it closes over.\<close>

record timer =
  delay :: nat
  isPm2 :: bool
  pm2AppName :: string

text \<open>
  The state of the process: the static flag, the handlers suspended at
  \<open>await this.checkIfRunningWithPm2()\<close>, the timers not yet fired, the shell commands
  the restart action has run, the exit code once \<open>process.exit\<close> was called, and the log.
\<close>

record sys_state =
  isRestarting :: bool
  probing :: nat
  timers :: "timer list"
  commands :: "string list"
  exited :: "int option"
  logger :: "log_entry list"

record RestartResult =
  restart_success :: bool
  message :: string

definition logger_add :: "log_entry \<Rightarrow> sys_state \<Rightarrow> sys_state" where
  "logger_add e s = s\<lparr>logger := logger s @ [e]\<rparr>"

definition process_exit :: "int \<Rightarrow> sys_state \<Rightarrow> sys_state" where
  "process_exit code s = s\<lparr>exited := Some code\<rparr>"

text \<open>An environment variable is truthy when it is set and not empty.\<close>

definition env_set :: "string option \<Rightarrow> bool" where
  "env_set v = (case v of None \<Rightarrow> False | Some x \<Rightarrow> x \<noteq> [])"

definition env_or :: "string option \<Rightarrow> string \<Rightarrow> string" where
  "env_or v d = (if env_set v then (case v of Some x \<Rightarrow> x | None \<Rightarrow> d) else d)"

definition checkIfRunningWithPm2 :: "process_env \<Rightarrow> bool" where
  "checkIfRunningWithPm2 env =
     (if env_set (PM2_HOME env) \<or> env_set (PM2_JSON_PROCESSING env) \<or> env_set (PM2_CLI env)
      then True
      else (case pm2_list env of
              Resolved stdout \<Rightarrow> trim stdout \<noteq> []
            | Rejected _ \<Rightarrow> False
            | Threw _ \<Rightarrow> False))"

text \<open>
  \<open>restartApplication\<close> up to its first suspension: the guard, and the flag set. A
  request that finds the flag set is answered at once.
\<close>

definition restart_enter :: "process_env \<Rightarrow> sys_state \<Rightarrow> RestartResult option \<times> sys_state" where
  "restart_enter env s =
     (if isRestarting s
      then (Some \<lparr>restart_success = False, message = msg_already_restarting\<rparr>,
            logger_add (WarnLine msg_already_restarting) s)
      else (let s1 = s\<lparr>isRestarting := True\<rparr>;
                port = parseInt (env_or (SERVER_PORT env) ''4090'') (Some 10);
                s2 = logger_add (LogLine (msg_restarting_port @ num_str port @ ''...'')) s1
            in (None, s2\<lparr>probing := probing s2 + 1\<rparr>)))"

text \<open>
  The rest of \<open>restartApplication\<close>, once the probe has answered: the restart is
  scheduled one second later and the request is answered.
\<close>

definition restart_resume :: "process_env \<Rightarrow> sys_state \<Rightarrow> RestartResult \<times> sys_state" where
  "restart_resume env s =
     (let isPm2 = checkIfRunningWithPm2 env;
          pm2AppName = env_or (PM2_APP_NAME env) ''fastbuildai'';
          s1 = s\<lparr>probing := probing s - 1,
                  timers := timers s @ [\<lparr>delay = 1000, isPm2 = isPm2, pm2AppName = pm2AppName\<rparr>]\<rparr>
      in (\<lparr>restart_success = True, message = msg_restart_sent\<rparr>, s1))"

text \<open>
  A whole call of \<open>restartApplication\<close>, with no other request in between. The
  logger, \<open>parseInt\<close> and the probe (which catches its own failures) do not throw, so
  the outer \<open>catch\<close> of the method, which would clear the flag and rethrow, is never
  entered and the call always returns a result.
\<close>

definition restartApplication :: "process_env \<Rightarrow> sys_state \<Rightarrow> RestartResult \<times> sys_state" where
  "restartApplication env s =
     (case restart_enter env s of
        (Some declined, s1) \<Rightarrow> (declined, s1)
      | (None, s1) \<Rightarrow> restart_resume env s1)"

text \<open>
  The scheduled action, given how \<open>pm2 restart\<close> ends. \<open>process.exit\<close> does not return,
  so nothing follows it.
\<close>

definition restart_action :: "timer \<Rightarrow> exec_result \<Rightarrow> sys_state \<Rightarrow> sys_state" where
  "restart_action t pm2_restart s =
     (if isPm2 t
      then (let s1 = logger_add (LogLine (msg_pm2_detected @ pm2AppName t @ ''...'')) s;
                cmd = ''pm2 restart '' @ pm2AppName t
            in case pm2_restart of
                 Resolved _ \<Rightarrow>
                   logger_add (LogLine (msg_pm2_done @ pm2AppName t @ msg_pm2_done_tail))
                     (s1\<lparr>commands := commands s1 @ [cmd]\<rparr>)
               | Rejected m \<Rightarrow>
                   process_exit 0
                     (logger_add (WarnLine (msg_pm2_failed @ m @ msg_pm2_failed_tail))
                        (s1\<lparr>commands := commands s1 @ [cmd]\<rparr>))
               | Threw m \<Rightarrow>
                   process_exit 1
                     ((logger_add (ErrorLine (msg_restart_error @ m)) s1)\<lparr>isRestarting := False\<rparr>))
      else process_exit 0 (logger_add (LogLine msg_no_pm2) s))"

text \<open>
  The process as a whole reacts to events: a restart request arrives, the probe of a
  suspended request answers, the oldest timer fires. Once the process has exited nothing
  happens any more.
\<close>

datatype event = Request process_env | Probed process_env | TimerFired exec_result

definition step :: "event \<Rightarrow> sys_state \<Rightarrow> sys_state" where
  "step e s =
     (if exited s \<noteq> None then s
      else (case e of
              Request env \<Rightarrow> snd (restart_enter env s)
            | Probed env \<Rightarrow> (if probing s = 0 then s else snd (restart_resume env s))
            | TimerFired r \<Rightarrow>
                (case timers s of
                   [] \<Rightarrow> s
                 | t # ts \<Rightarrow> restart_action t r (s\<lparr>timers := ts\<rparr>))))"

definition run :: "event list \<Rightarrow> sys_state \<Rightarrow> sys_state" where
  "run es s = foldl (\<lambda>st e. step e st) s es"

definition initial_state :: sys_state where
  "initial_state =
     \<lparr>isRestarting = False, probing = 0, timers = [], commands = [], exited = None, logger = []\<rparr>"

text \<open>Restart sequences in flight: requests still probing and actions still scheduled.\<close>

definition in_flight :: "sys_state \<Rightarrow> nat" where
  "in_flight s = probing s + length (timers s)"

section \<open>Grouping conversations by date\<close>

text \<open>
  A \<open>Date\<close> is either invalid (every getter returns \<open>NaN\<close>) or a time value together
  with what the runtime's calendar derives from it in local time: the year, the month
  (0 to 11) and the time value of the midnight that starts its day, which is what
  \<open>new Date(d.getFullYear(), d.getMonth(), d.getDate()).getTime()\<close> returns.
\<close>

datatype jsdate =
    InvalidDate
  | ValidDate (time_value: int) (full_year: int) (month_index: nat) (day_start: int)

definition getTime :: "jsdate \<Rightarrow> jsnum" where
  "getTime d = (case d of InvalidDate \<Rightarrow> None | ValidDate t _ _ _ \<Rightarrow> Some t)"

definition getFullYear :: "jsdate \<Rightarrow> jsnum" where
  "getFullYear d = (case d of InvalidDate \<Rightarrow> None | ValidDate _ y _ _ \<Rightarrow> Some y)"

definition getMonth :: "jsdate \<Rightarrow> jsnum" where
  "getMonth d = (case d of InvalidDate \<Rightarrow> None | ValidDate _ _ m _ \<Rightarrow> Some (int m))"

definition startOfDay :: "jsdate \<Rightarrow> jsnum" where
  "startOfDay d = (case d of InvalidDate \<Rightarrow> None | ValidDate _ _ _ s \<Rightarrow> Some s)"

text \<open>\<open>getDateGroup\<close>, with the current date as a parameter.\<close>

definition getDateGroup :: "jsdate \<Rightarrow> jsdate \<Rightarrow> string" where
  "getDateGroup now targetDate =
     (let today = startOfDay now;
          target = startOfDay targetDate;
          diffTime = num_sub today target;
          diffDays = num_floor_div diffTime (1000 * 60 * 60 * 24)
      in if diffDays = Some 0 then ''today''
         else if diffDays = Some 1 then ''yesterday''
         else if num_le diffDays (Some 7) then ''week''
         else if num_le diffDays (Some 30) then ''month''
         else num_str (getFullYear targetDate) @ ''-'' @
              num_str (num_add (getMonth targetDate) (Some 1)))"

text \<open>The destructuring \<open>[year, month] = groupKey.split("-")\<close>.\<close>

definition nth_opt :: "'a list \<Rightarrow> nat \<Rightarrow> 'a option" where
  "nth_opt xs n = (if n < length xs then Some (xs ! n) else None)"

definition getGroupWeight :: "string \<Rightarrow> jsnum" where
  "getGroupWeight groupKey =
     (if groupKey = ''today'' then Some 1
      else if groupKey = ''yesterday'' then Some 2
      else if groupKey = ''week'' then Some 3
      else if groupKey = ''month'' then Some 4
      else if CHR ''-'' \<in> set groupKey
      then (let parts = split_on CHR ''-'' groupKey;
                year = nth_opt parts 0;
                month = nth_opt parts 1
            in num_add (num_add (Some 1000) (num_mul (parseInt_opt year) (Some 100)))
                 (parseInt_opt month))
      else Some 9999)"

text \<open>
  The \<open>Map\<close> from group key to items keeps its keys in insertion order; it is the list of
  its entries. \<open>groups_push\<close> is the body of the \<open>forEach\<close>: a new key is added at the
  end with the item, a known key gets the item appended.
\<close>

fun groups_push :: "string \<Rightarrow> 'a \<Rightarrow> (string \<times> 'a list) list \<Rightarrow> (string \<times> 'a list) list" where
  "groups_push k x [] = [(k, [x])]"
| "groups_push k x ((k', xs) # rest) =
     (if k = k' then (k', xs @ [x]) # rest else (k', xs) # groups_push k x rest)"

record ('a, 'l) GroupedConversations =
  label :: 'l
  key :: string
  items :: "'a list"

text \<open>
  \<open>groupConversationsByDate\<close>. An item is any value; \<open>dateOf item\<close> is
  \<open>new Date(item[dateField])\<close>, and \<open>labelOf key\<close> is \<open>getGroupLabel(key, t)\<close>, whose
  text no property below depends on.
\<close>

definition groupConversationsByDate ::
  "jsdate \<Rightarrow> ('a \<Rightarrow> jsdate) \<Rightarrow> (string \<Rightarrow> 'l) \<Rightarrow> 'a list \<Rightarrow> ('a, 'l) GroupedConversations list" where
  "groupConversationsByDate now dateOf labelOf conversations =
     (let groups = foldl (\<lambda>g item. groups_push (getDateGroup now (dateOf item)) item g)
                     [] conversations
      in array_sort (\<lambda>a b. num_sub (getGroupWeight (key a)) (getGroupWeight (key b)))
           (map (\<lambda>(k, its).
                   \<lparr>label = labelOf k, key = k,
                    items = array_sort
                              (\<lambda>a b. num_sub (getTime (dateOf b)) (getTime (dateOf a))) its\<rparr>)
              groups))"

section \<open>Notions the properties are stated with\<close>

text \<open>The user table holds one row per id.\<close>

definition unique_ids :: "user_table \<Rightarrow> bool" where
  "unique_ids rows = distinct (map (\<lambda>u. u ''id'') rows)"

text \<open>The ids among \<open>ids\<close> that belong to a stored root user.\<close>

definition root_ids :: "user_table \<Rightarrow> string list \<Rightarrow> string set" where
  "root_ids rows ids = {i \<in> set ids. \<exists>u \<in> set rows. has_id i u \<and> isEnabled (u ''isRoot'')}"

text \<open>
  The place of a group in the fixed order of the named groups; every other key, the
  year-month keys among them, comes after the four.
\<close>

definition named_rank :: "string \<Rightarrow> nat" where
  "named_rank k =
     (if k = ''today'' then 0 else if k = ''yesterday'' then 1 else if k = ''week'' then 2
      else if k = ''month'' then 3 else 4)"

text \<open>A date the grouping is meant for: a valid date of a year that is not negative.\<close>

definition dated :: "jsdate \<Rightarrow> bool" where
  "dated d = (case d of InvalidDate \<Rightarrow> False | ValidDate _ y _ _ \<Rightarrow> 0 \<le> y)"

text \<open>The weight of a group key as an integer, 0 when it is \<open>NaN\<close>.\<close>

definition weight_of :: "string \<Rightarrow> int" where
  "weight_of k = (case getGroupWeight k of Some w \<Rightarrow> w | None \<Rightarrow> 0)"

text \<open>
  The coordinator's invariant: at most one restart is under way or has issued its
  command, and while there is one the flag is set (or the process has exited).
\<close>

definition guarded :: "sys_state \<Rightarrow> bool" where
  "guarded s \<longleftrightarrow>
     in_flight s + length (commands s) \<le> 1 \<and>
     (0 < in_flight s + length (commands s) \<longrightarrow> isRestarting s \<or> exited s \<noteq> None)"

section \<open>Sample data\<close>

text \<open>A user table with the root user and one ordinary user, and a process under PM2.\<close>

definition example_root :: obj where
  "example_root =
     [''id'' \<mapsto> VStr ''u-root'', ''isRoot'' \<mapsto> VNum 1, ''nickname'' \<mapsto> VStr ''admin'',
      ''password'' \<mapsto> VStr ''hash-r'', ''openid'' \<mapsto> VStr ''wx-root'']"

definition example_member :: obj where
  "example_member =
     [''id'' \<mapsto> VStr ''u-2'', ''isRoot'' \<mapsto> VNum 0, ''nickname'' \<mapsto> VStr ''ann'',
      ''password'' \<mapsto> VStr ''hash-2'', ''openid'' \<mapsto> VStr ''wx-2'']"

definition example_state :: app_state where
  "example_state = \<lparr>users = [example_root, example_member], cacheClears = [], warnings = []\<rparr>"

text \<open>The same table with a second root user, whose flag is \<open>true\<close>.\<close>

definition example_root2 :: obj where
  "example_root2 =
     [''id'' \<mapsto> VStr ''u-root2'', ''isRoot'' \<mapsto> VBool True, ''nickname'' \<mapsto> VStr ''owner'',
      ''password'' \<mapsto> VStr ''hash-o'']"

definition example_state2 :: app_state where
  "example_state2 =
     \<lparr>users = [example_root, example_member, example_root2], cacheClears = [], warnings = []\<rparr>"

definition example_env :: process_env where
  "example_env =
     \<lparr>SERVER_PORT = None, PM2_HOME = Some ''/root/.pm2'', PM2_JSON_PROCESSING = None,
      PM2_CLI = None, PM2_APP_NAME = None, pm2_list = Rejected ''pm2: not found''\<rparr>"

text \<open>
  Dates, in a time zone without offset: 10 o'clock on 2 November 2026 (the current
  date), on the day before, on 14 February 2020, and on 1 June of the year -1.
\<close>

definition example_now :: jsdate where
  "example_now = ValidDate 1793613600000 2026 10 1793577600000"

definition example_yesterday :: jsdate where
  "example_yesterday = ValidDate 1793527200000 2026 10 1793491200000"

definition example_old :: jsdate where
  "example_old = ValidDate 1581674400000 2020 1 1581638400000"

definition example_bce :: jsdate where
  "example_bce = ValidDate (- 62185672800000) (- 1) 5 (- 62185708800000)"

section \<open>Properties of the payment configuration lookup\<close>

text \<open>
  C10: \<open>getPayconfig(payType)\<close> returns a configuration only when it is a stored one of
  this pay type whose \<open>isEnable\<close> flag is enabled; it returns one whenever such a
  configuration exists; and when none exists, also when a disabled configuration of the
  pay type is stored, it fails with the not-found error. A disabled configuration is
  never returned.
\<close>

theorem C10_getPayconfig_enabled_only:
  "(\<forall>c. getPayconfig repository pt = Inr c \<longrightarrow>
        c \<in> set repository \<and> payType c = pt \<and> isEnable c = BooleanNumber_YES) \<and>
   ((\<exists>c \<in> set repository. payType c = pt \<and> isEnable c = BooleanNumber_YES) \<longrightarrow>
        (\<exists>c. getPayconfig repository pt = Inr c)) \<and>
   (\<not> (\<exists>c \<in> set repository. payType c = pt \<and> isEnable c = BooleanNumber_YES) \<longrightarrow>
        getPayconfig repository pt = Inl (NotFound msg_payconfig_not_found))"
proof -
  let ?P = "\<lambda>c. isEnable c = BooleanNumber_YES \<and> payType c = pt"
  show ?thesis
  proof (cases "List.find ?P repository")
    case None
    then have "\<not> (\<exists>c \<in> set repository. ?P c)" by (simp add: find_None_iff)
    with None show ?thesis
      by (auto simp: getPayconfig_def repository_findOne_def)
  next
    case (Some c)
    then have "c \<in> set repository \<and> ?P c"
      by (auto simp: find_Some_iff)
    with Some show ?thesis
      by (auto simp: getPayconfig_def repository_findOne_def)
  qed
qed

text \<open>
  A table with a disabled configuration of pay type 1 and an enabled one of pay type 2:
  the lookup of 1 fails, the lookup of 2 returns the enabled row.
\<close>

theorem C10_getPayconfig_witness:
  "getPayconfig
     [\<lparr>pc_id = ''a'', pc_name = ''wechat'', payType = 1, isEnable = 0, sort_key = 0, isDefault = 0\<rparr>,
      \<lparr>pc_id = ''b'', pc_name = ''alipay'', payType = 2, isEnable = 1, sort_key = 1, isDefault = 1\<rparr>] 1
     = Inl (NotFound msg_payconfig_not_found) \<and>
   getPayconfig
     [\<lparr>pc_id = ''a'', pc_name = ''wechat'', payType = 1, isEnable = 0, sort_key = 0, isDefault = 0\<rparr>,
      \<lparr>pc_id = ''b'', pc_name = ''alipay'', payType = 2, isEnable = 1, sort_key = 1, isDefault = 1\<rparr>] 2
     = Inr \<lparr>pc_id = ''b'', pc_name = ''alipay'', payType = 2, isEnable = 1, sort_key = 1, isDefault = 1\<rparr>"
  using C10_getPayconfig_enabled_only
    [of "[\<lparr>pc_id = ''a'', pc_name = ''wechat'', payType = 1, isEnable = 0, sort_key = 0, isDefault = 0\<rparr>,
      \<lparr>pc_id = ''b'', pc_name = ''alipay'', payType = 2, isEnable = 1, sort_key = 1, isDefault = 1\<rparr>]" 1]
  by (simp add: getPayconfig_def repository_findOne_def BooleanNumber_YES_def)

section \<open>Properties of the login settings validation\<close>

lemma check_methods_ok:
  "check_methods V p xs = Inr () \<longleftrightarrow> \<not> list_ex (\<lambda>m. m \<notin> set V) xs"
  by (induction xs) auto

lemma check_methods_cases:
  "(\<exists>m. check_methods V p xs = Inl (ParamError m)) \<or> check_methods V p xs = Inr ()"
  by (induction xs) auto

text \<open>
  C6: the validation of the login settings fails, always with the parameter
  (validation) error, exactly when the list of login methods is empty or missing, or the
  list of register methods is empty or missing, or the default login method is not among
  the login methods, or a listed method is not a valid login type; for every other
  configuration it returns normally. The function maps a configuration to a result and
  touches no state.
\<close>

theorem C6_validateLoginSettings_rules:
  "(violates_login_rules V config \<longrightarrow>
      (\<exists>m. validateLoginSettings V config = Inl (ParamError m))) \<and>
   (\<not> violates_login_rules V config \<longrightarrow> validateLoginSettings V config = Inr ())"
proof (cases "allowedLoginMethods config")
  case None
  then show ?thesis
    by (simp add: validateLoginSettings_def violates_login_rules_def empty_or_missing_def)
next
  case L: (Some lm)
  show ?thesis
  proof (cases "allowedRegisterMethods config")
    case None
    with L show ?thesis
      by (simp add: validateLoginSettings_def violates_login_rules_def empty_or_missing_def
          default_is_allowed_def)
  next
    case R: (Some rm)
    have okl: "check_methods V msg_invalid_login_method lm = Inr () \<longleftrightarrow>
                 \<not> list_ex (\<lambda>m. m \<notin> set V) lm"
      by (rule check_methods_ok)
    have okr: "check_methods V msg_invalid_register_method rm = Inr () \<longleftrightarrow>
                 \<not> list_ex (\<lambda>m. m \<notin> set V) rm"
      by (rule check_methods_ok)
    from check_methods_cases [of V msg_invalid_login_method lm]
         check_methods_cases [of V msg_invalid_register_method rm]
    show ?thesis
      using L R okl okr
      by (auto simp: validateLoginSettings_def violates_login_rules_def empty_or_missing_def
          default_is_allowed_def listed_methods_def split: sum.splits)
  qed
qed

text \<open>
  The three examples of the specification, with account, phone and wechat as the valid
  login types: the first two break a rule and fail, the third breaks none and passes.
\<close>

theorem C6_validateLoginSettings_witness:
  "validateLoginSettings [''account'', ''phone'', ''wechat'']
     \<lparr>allowedLoginMethods = Some [], allowedRegisterMethods = Some [''account''],
      defaultLoginMethod = Some ''account'', allowMultipleLogin = False,
      showPolicyAgreement = True\<rparr> = Inl (ParamError msg_need_login_method) \<and>
   validateLoginSettings [''account'', ''phone'', ''wechat'']
     \<lparr>allowedLoginMethods = Some [''account''], allowedRegisterMethods = Some [''account''],
      defaultLoginMethod = Some ''phone'', allowMultipleLogin = False,
      showPolicyAgreement = True\<rparr> = Inl (ParamError msg_default_not_allowed) \<and>
   validateLoginSettings [''account'', ''phone'', ''wechat'']
     \<lparr>allowedLoginMethods = Some [''account'', ''phone''],
      allowedRegisterMethods = Some [''account''],
      defaultLoginMethod = Some ''account'', allowMultipleLogin = False,
      showPolicyAgreement = True\<rparr> = Inr ()"
  using C6_validateLoginSettings_rules [of "[''account'', ''phone'', ''wechat'']"
     "\<lparr>allowedLoginMethods = Some [''account'', ''phone''],
      allowedRegisterMethods = Some [''account''],
      defaultLoginMethod = Some ''account'', allowMultipleLogin = False,
      showPolicyAgreement = True\<rparr>"]
  by (simp add: validateLoginSettings_def violates_login_rules_def empty_or_missing_def
      default_is_allowed_def listed_methods_def array_includes_def)

section \<open>Properties of the user administration\<close>

text \<open>In a table with one row per id, the row of an id is the one \<open>findOne\<close> returns.\<close>

lemma findOne_stored:
  "unique_ids rows \<Longrightarrow> u \<in> set rows \<Longrightarrow> has_id i u \<Longrightarrow> userService_findOne rows i = Some u"
proof (induction rows)
  case Nil
  then show ?case by simp
next
  case (Cons r rows)
  show ?case
  proof (cases "has_id i r")
    case True
    have "u = r"
    proof (rule ccontr)
      assume "u \<noteq> r"
      with Cons.prems have "u \<in> set rows" by simp
      then have "u ''id'' \<in> set (map (\<lambda>u. u ''id'') rows)" by force
      moreover from True Cons.prems have "u ''id'' = r ''id''" by (simp add: has_id_def)
      ultimately show False using Cons.prems(1) by (simp add: unique_ids_def)
    qed
    with True show ?thesis by (simp add: userService_findOne_def repository_findOne_def)
  next
    case False
    with Cons.prems have "u \<in> set rows" "unique_ids rows"
      by (auto simp: unique_ids_def)
    with Cons.IH Cons.prems False show ?thesis
      by (simp add: userService_findOne_def repository_findOne_def)
  qed
qed

text \<open>What \<open>update\<close> does once the target is found, and when it is not.\<close>

lemma update_found:
  assumes "userService_findOne (users s) i = Some u"
  shows "update settles i patch a s =
     (if isEnabled (u ''isRoot'') \<and> playground_id a \<noteq> i
      then (Inl (Unauthorized msg_no_permission), s)
      else (Inr (exclude_fields [''password''] (u ++ patch)),
            s\<lparr>users := map (\<lambda>r. if has_id i r then u ++ patch else r) (users s),
              cacheClears := cacheClears s @ [i],
              warnings := warnings s @
                 (case settles of None \<Rightarrow> [] | Some m \<Rightarrow> [msg_clear_cache_failed @ m])\<rparr>))"
  using assms
  by (cases settles)
     (simp_all add: update_def userService_updateById_def userService_findOne_def
        clearUserCache_def logger_warn_def Let_def)

lemma update_missing:
  assumes "userService_findOne (users s) i = None"
  shows "update settles i patch a s = (Inl (NotFound msg_user_not_found), s)"
  using assms by (simp add: update_def)

lemma example_facts:
  "unique_ids (users example_state)"
  "example_root \<in> set (users example_state)"
  "example_member \<in> set (users example_state)"
  "has_id ''u-root'' example_root"
  "has_id ''u-2'' example_member"
  "isEnabled (example_root ''isRoot'')"
  "\<not> isEnabled (example_member ''isRoot'')"
  by (simp_all add: example_state_def example_root_def example_member_def unique_ids_def
      has_id_def isEnabled_def BooleanNumber_YES_def)

text \<open>
  C1: for every stored user \<open>u\<close> whose \<open>isRoot\<close> flag is enabled and every acting
  user \<open>a\<close>, \<open>update(u.id, patch, a)\<close> fails with the authorization error, and leaves
  the state as it was, when \<open>a.id\<close> differs from \<open>u.id\<close>; when \<open>a.id\<close> is \<open>u.id\<close>,
  or the target is not a root user (whoever acts), the update succeeds: the patch is
  applied to the row, the row is persisted, and the patched row without its password is
  returned.
\<close>

theorem C1_update_root_protection:
  assumes "unique_ids (users s)" and "u \<in> set (users s)" and "has_id i u"
  shows "(isEnabled (u ''isRoot'') \<and> playground_id a \<noteq> i \<longrightarrow>
            update settles i patch a s = (Inl (Unauthorized msg_no_permission), s)) \<and>
         (\<not> isEnabled (u ''isRoot'') \<or> playground_id a = i \<longrightarrow>
            fst (update settles i patch a s) = Inr (exclude_fields [''password''] (u ++ patch)) \<and>
            users (snd (update settles i patch a s)) =
              map (\<lambda>r. if has_id i r then u ++ patch else r) (users s) \<and>
            (u ++ patch) \<in> set (users (snd (update settles i patch a s))))"
proof -
  from assms have f: "userService_findOne (users s) i = Some u" by (rule findOne_stored)
  from assms(2,3) have "(u ++ patch) \<in> set (map (\<lambda>r. if has_id i r then u ++ patch else r) (users s))"
    by force
  then show ?thesis
    by (simp add: update_found [OF f])
qed

text \<open>
  On the sample table: the ordinary user may not update the root user, the root user
  may update itself, and the ordinary user is updated by the root user.
\<close>

theorem C1_update_witness:
  "update None ''u-root'' [''nickname'' \<mapsto> VStr ''boss''] \<lparr>playground_id = ''u-2''\<rparr> example_state
     = (Inl (Unauthorized msg_no_permission), example_state) \<and>
   fst (update None ''u-root'' [''nickname'' \<mapsto> VStr ''boss''] \<lparr>playground_id = ''u-root''\<rparr>
          example_state)
     = Inr (exclude_fields [''password''] (example_root ++ [''nickname'' \<mapsto> VStr ''boss''])) \<and>
   fst (update None ''u-2'' [''nickname'' \<mapsto> VStr ''bea''] \<lparr>playground_id = ''u-root''\<rparr>
          example_state)
     = Inr (exclude_fields [''password''] (example_member ++ [''nickname'' \<mapsto> VStr ''bea'']))"
  using
    C1_update_root_protection [OF example_facts(1) example_facts(2) example_facts(4),
      of "\<lparr>playground_id = ''u-2''\<rparr>" None "[''nickname'' \<mapsto> VStr ''boss'']"]
    C1_update_root_protection [OF example_facts(1) example_facts(2) example_facts(4),
      of "\<lparr>playground_id = ''u-root''\<rparr>" None "[''nickname'' \<mapsto> VStr ''boss'']"]
    C1_update_root_protection [OF example_facts(1) example_facts(3) example_facts(5),
      of "\<lparr>playground_id = ''u-root''\<rparr>" None "[''nickname'' \<mapsto> VStr ''bea'']"]
    example_facts(6,7)
  by simp

lemma remove_found:
  assumes "userService_findOne (users s) i = Some u"
  shows "remove i s =
     (if isEnabled (u ''isRoot'') then (Inl (Unauthorized msg_no_permission), s)
      else (Inr \<lparr>success = list_ex (has_id i) (users s)\<rparr>,
            s\<lparr>users := filter (\<lambda>r. \<not> has_id i r) (users s)\<rparr>))"
  using assms by (simp add: remove_def userService_delete_def)

lemma root_ids_listed:
  "set (map (\<lambda>user. join_str (user ''id''))
          (filter (\<lambda>user. isEnabled (user ''isRoot'')) (userService_findAll_in rows ids)))
   = root_ids rows ids"
proof -
  have "join_str (u ''id'') = j" if "has_id j u" for u j
    using that by (simp add: has_id_def join_str_def)
  then show ?thesis
    by (fastforce simp: root_ids_def userService_findAll_in_def list_ex_iff image_iff)
qed

lemma root_ids_empty:
  "root_ids rows ids = {} \<longleftrightarrow>
   filter (\<lambda>user. isEnabled (user ''isRoot'')) (userService_findAll_in rows ids) = []"
  using root_ids_listed [of rows ids] by (metis (no_types, lifting) map_is_Nil_conv set_empty)

text \<open>
  What \<open>join\<close> makes of a list: the first element, then every further element behind
  the separator; so every element of the list stands in the joined string.
\<close>

lemma join_concat: "join sep (x # xs) = x @ concat (map (\<lambda>y. sep @ y) xs)"
  by (induction xs arbitrary: x) simp_all

lemma join_contains:
  "x \<in> set xs \<Longrightarrow> \<exists>pre suf. join sep xs = pre @ x @ suf"
proof (induction sep xs rule: join.induct)
  case (1 sep)
  then show ?case by simp
next
  case (2 sep y)
  then have "join sep [y] = [] @ x @ []" by simp
  then show ?case by blast
next
  case (3 sep y z zs)
  show ?case
  proof (cases "x = y")
    case True
    then have "join sep (y # z # zs) = [] @ x @ (sep @ join sep (z # zs))" by simp
    then show ?thesis by blast
  next
    case False
    with 3 obtain pre suf where "join sep (z # zs) = pre @ x @ suf" by auto
    then have "join sep (y # z # zs) = (y @ sep @ pre) @ x @ suf" by simp
    then show ?thesis by blast
  qed
qed

text \<open>In a table with one row per id, no id is listed twice.\<close>

lemma root_ids_distinct:
  assumes "unique_ids rows"
  shows "distinct (map (\<lambda>user. join_str (user ''id''))
          (filter (\<lambda>user. isEnabled (user ''isRoot'')) (userService_findAll_in rows ids)))"
proof -
  let ?roots = "filter (\<lambda>user. isEnabled (user ''isRoot'')) (userService_findAll_in rows ids)"
  have sub: "?roots = filter (\<lambda>u. list_ex (\<lambda>i. has_id i u) ids \<and> isEnabled (u ''isRoot'')) rows"
    by (simp add: userService_findAll_in_def conj_commute)
  from assms have "distinct (map (\<lambda>u. u ''id'') ?roots)"
    unfolding sub unique_ids_def by (rule distinct_map_filter)
  then have d: "distinct ?roots" and inj: "inj_on (\<lambda>u. u ''id'') (set ?roots)"
    by (simp_all add: distinct_map)
  have "inj_on (\<lambda>user. join_str (user ''id'')) (set ?roots)"
  proof (rule inj_onI)
    fix u v
    assume u: "u \<in> set ?roots" and v: "v \<in> set ?roots"
      and e: "join_str (u ''id'') = join_str (v ''id'')"
    from u obtain a where a: "u ''id'' = Some (VStr a)"
      by (auto simp: userService_findAll_in_def list_ex_iff has_id_def)
    from v obtain b where b: "v ''id'' = Some (VStr b)"
      by (auto simp: userService_findAll_in_def list_ex_iff has_id_def)
    from a b e have "u ''id'' = v ''id''" by (simp add: join_str_def)
    with inj u v show "u = v" by (auto dest: inj_onD)
  qed
  with d show ?thesis by (simp add: distinct_map)
qed

lemma example2_unique: "unique_ids (users example_state2)"
  by (simp add: example_state2_def example_root_def example_member_def example_root2_def
      unique_ids_def)

text \<open>
  C2: in a table with one row per id, \<open>remove\<close> of a root user's id fails with the
  authorization error and deletes nothing, and \<open>remove\<close> of another stored user's id
  deletes the row and returns success. \<open>batchRemove(ids)\<close> with a root user's id among
  \<open>ids\<close> fails with the authorization error and deletes nothing; its message is the
  prefix, then the first root id, then every further root id behind a comma and a blank,
  where the ids listed are exactly the root ids among \<open>ids\<close>, each once: every root id
  among \<open>ids\<close> stands in the message, not only the first. With no root id among \<open>ids\<close>
  the listed rows are deleted and the success indicator of the deletion is returned.
\<close>

theorem C2_delete_root_protection:
  assumes "unique_ids (users s)"
  shows
  "(\<forall>u \<in> set (users s). has_id i u \<and> isEnabled (u ''isRoot'') \<longrightarrow>
       remove i s = (Inl (Unauthorized msg_no_permission), s)) \<and>
   (\<forall>u \<in> set (users s). has_id i u \<and> \<not> isEnabled (u ''isRoot'') \<longrightarrow>
       remove i s = (Inr \<lparr>success = True\<rparr>, s\<lparr>users := filter (\<lambda>r. \<not> has_id i r) (users s)\<rparr>)) \<and>
   (root_ids (users s) ids \<noteq> {} \<longrightarrow>
       (\<exists>first rest.
          set (first # rest) = root_ids (users s) ids \<and> distinct (first # rest) \<and>
          batchRemove ids s =
            (Inl (Unauthorized (msg_root_not_deletable @ join '', '' (first # rest))), s) \<and>
          batchRemove ids s =
            (Inl (Unauthorized
                    (msg_root_not_deletable @ first @ concat (map (\<lambda>j. '', '' @ j) rest))), s))) \<and>
   (\<forall>j \<in> root_ids (users s) ids.
       \<exists>pre suf. batchRemove ids s =
          (Inl (Unauthorized (msg_root_not_deletable @ pre @ j @ suf)), s)) \<and>
   (root_ids (users s) ids = {} \<longrightarrow>
       batchRemove ids s =
         (Inr \<lparr>success = fst (userService_deleteMany (users s) ids)\<rparr>,
          s\<lparr>users := filter (\<lambda>r. \<not> list_ex (\<lambda>j. has_id j r) ids) (users s)\<rparr>))"
proof -
  define roots where
    "roots = filter (\<lambda>user. isEnabled (user ''isRoot'')) (userService_findAll_in (users s) ids)"
  define listed where "listed = map (\<lambda>user. join_str (user ''id'')) roots"
  have set_listed: "set listed = root_ids (users s) ids"
    unfolding listed_def roots_def by (rule root_ids_listed)
  have distinct_listed: "distinct listed"
    unfolding listed_def roots_def using assms by (rule root_ids_distinct)
  have empty: "root_ids (users s) ids = {} \<longleftrightarrow> roots = []"
    unfolding roots_def by (rule root_ids_empty)
  have refused: "batchRemove ids s =
        (Inl (Unauthorized (msg_root_not_deletable @ join '', '' listed)), s)"
    if "roots \<noteq> []"
    using that by (simp add: batchRemove_def Let_def listed_def roots_def)
  have single: "remove i s =
     (if isEnabled (u ''isRoot'') then (Inl (Unauthorized msg_no_permission), s)
      else (Inr \<lparr>success = True\<rparr>, s\<lparr>users := filter (\<lambda>r. \<not> has_id i r) (users s)\<rparr>))"
    if "u \<in> set (users s)" "has_id i u" for u
  proof -
    from assms that have "userService_findOne (users s) i = Some u" by (rule findOne_stored)
    moreover from that have "list_ex (has_id i) (users s)" by (auto simp: list_ex_iff)
    ultimately show ?thesis by (simp add: remove_found)
  qed
  have batch_root: "\<exists>first rest.
          set (first # rest) = root_ids (users s) ids \<and> distinct (first # rest) \<and>
          batchRemove ids s =
            (Inl (Unauthorized (msg_root_not_deletable @ join '', '' (first # rest))), s) \<and>
          batchRemove ids s =
            (Inl (Unauthorized
                    (msg_root_not_deletable @ first @ concat (map (\<lambda>j. '', '' @ j) rest))), s)"
    if "root_ids (users s) ids \<noteq> {}"
  proof -
    from that empty have ne: "roots \<noteq> []" by simp
    then have "listed \<noteq> []" by (simp add: listed_def)
    then obtain first rest where l: "listed = first # rest" by (cases listed) auto
    from refused [OF ne] have m: "batchRemove ids s =
        (Inl (Unauthorized (msg_root_not_deletable @ join '', '' (first # rest))), s)"
      by (simp only: l)
    then have "batchRemove ids s =
        (Inl (Unauthorized
                (msg_root_not_deletable @ first @ concat (map (\<lambda>j. '', '' @ j) rest))), s)"
      by (simp only: join_concat)
    moreover from set_listed l have "set (first # rest) = root_ids (users s) ids" by simp
    moreover from distinct_listed l have "distinct (first # rest)" by simp
    ultimately show ?thesis using m by (intro exI conjI)
  qed
  have batch_each: "\<exists>pre suf. batchRemove ids s =
          (Inl (Unauthorized (msg_root_not_deletable @ pre @ j @ suf)), s)"
    if "j \<in> root_ids (users s) ids" for j
  proof -
    from that set_listed have j: "j \<in> set listed" by simp
    then have "listed \<noteq> []" by auto
    then have ne: "roots \<noteq> []" by (auto simp: listed_def)
    from join_contains [OF j, of "'', ''"] obtain pre suf
      where "join '', '' listed = pre @ j @ suf" by blast
    with refused [OF ne] have "batchRemove ids s =
          (Inl (Unauthorized (msg_root_not_deletable @ pre @ j @ suf)), s)" by simp
    then show ?thesis by (intro exI)
  qed
  have batch_ok: "batchRemove ids s =
         (Inr \<lparr>success = fst (userService_deleteMany (users s) ids)\<rparr>,
          s\<lparr>users := filter (\<lambda>r. \<not> list_ex (\<lambda>j. has_id j r) ids) (users s)\<rparr>)"
    if "root_ids (users s) ids = {}"
  proof -
    from that empty have "roots = []" by simp
    then show ?thesis
      by (simp add: batchRemove_def Let_def userService_deleteMany_def roots_def)
  qed
  show ?thesis
  proof (intro conjI ballI impI)
    fix u assume "u \<in> set (users s)" "has_id i u \<and> isEnabled (u ''isRoot'')"
    then show "remove i s = (Inl (Unauthorized msg_no_permission), s)"
      by (simp add: single)
  next
    fix u assume "u \<in> set (users s)" "has_id i u \<and> \<not> isEnabled (u ''isRoot'')"
    then show "remove i s =
        (Inr \<lparr>success = True\<rparr>, s\<lparr>users := filter (\<lambda>r. \<not> has_id i r) (users s)\<rparr>)"
      by (simp add: single)
  next
    assume "root_ids (users s) ids \<noteq> {}"
    then show "\<exists>first rest.
          set (first # rest) = root_ids (users s) ids \<and> distinct (first # rest) \<and>
          batchRemove ids s =
            (Inl (Unauthorized (msg_root_not_deletable @ join '', '' (first # rest))), s) \<and>
          batchRemove ids s =
            (Inl (Unauthorized
                    (msg_root_not_deletable @ first @ concat (map (\<lambda>j. '', '' @ j) rest))), s)"
      by (rule batch_root)
  next
    fix j assume "j \<in> root_ids (users s) ids"
    then show "\<exists>pre suf. batchRemove ids s =
          (Inl (Unauthorized (msg_root_not_deletable @ pre @ j @ suf)), s)"
      by (rule batch_each)
  next
    assume "root_ids (users s) ids = {}"
    then show "batchRemove ids s =
         (Inr \<lparr>success = fst (userService_deleteMany (users s) ids)\<rparr>,
          s\<lparr>users := filter (\<lambda>r. \<not> list_ex (\<lambda>j. has_id j r) ids) (users s)\<rparr>)"
      by (rule batch_ok)
  qed
qed

text \<open>
  On the sample tables: the root user cannot be deleted alone or in a batch, the ordinary
  user can, an id that is not stored is passed over by the batch, and a batch with both
  root users is refused with a message that names the two of them.
\<close>

theorem C2_delete_witness:
  "remove ''u-root'' example_state = (Inl (Unauthorized msg_no_permission), example_state) \<and>
   remove ''u-2'' example_state =
     (Inr \<lparr>success = True\<rparr>, example_state\<lparr>users := [example_root]\<rparr>) \<and>
   batchRemove [''u-2'', ''u-root''] example_state =
     (Inl (Unauthorized (msg_root_not_deletable @ ''u-root'')), example_state) \<and>
   batchRemove [''u-2'', ''u-9''] example_state =
     (Inr \<lparr>success = True\<rparr>, example_state\<lparr>users := [example_root]\<rparr>) \<and>
   batchRemove [''u-root2'', ''u-2'', ''u-root''] example_state2 =
     (Inl (Unauthorized (msg_root_not_deletable @ ''u-root, u-root2'')), example_state2)"
proof -
  have ids: "has_id j example_root \<longleftrightarrow> j = ''u-root''" "has_id j example_member \<longleftrightarrow> j = ''u-2''"
    "has_id j example_root2 \<longleftrightarrow> j = ''u-root2''" for j
    by (auto simp: has_id_def example_root_def example_member_def example_root2_def)
  have u: "users example_state = [example_root, example_member]"
    by (simp add: example_state_def)
  have u2: "users example_state2 = [example_root, example_member, example_root2]"
    by (simp add: example_state2_def)
  have root2: "isEnabled (example_root2 ''isRoot'')"
    by (simp add: example_root2_def isEnabled_def)
  have del: "filter (\<lambda>r. \<not> has_id ''u-2'' r) (users example_state) = [example_root]"
    by (simp add: u ids)
  have del2: "filter (\<lambda>r. \<not> list_ex (\<lambda>j. has_id j r) [''u-2'', ''u-9'']) (users example_state)
                = [example_root]"
    "fst (userService_deleteMany (users example_state) [''u-2'', ''u-9''])"
    by (simp_all add: u ids userService_deleteMany_def)
  have r1: "root_ids (users example_state) [''u-2'', ''u-root''] = {''u-root''}"
    using example_facts(6,7) by (auto simp: root_ids_def u ids)
  have r2: "root_ids (users example_state) [''u-2'', ''u-9''] = {}"
    using example_facts(6,7) by (auto simp: root_ids_def u ids)
  have r3: "root_ids (users example_state2) [''u-root2'', ''u-2'', ''u-root'']
              = {''u-root'', ''u-root2''}"
    using example_facts(6,7) root2 by (auto simp: root_ids_def u2 ids)
  note A = C2_delete_root_protection [OF example_facts(1), of "''u-root''" "[''u-2'', ''u-root'']"]
  note B = C2_delete_root_protection [OF example_facts(1), of "''u-2''" "[''u-2'', ''u-9'']"]
  note C = C2_delete_root_protection [OF example2_unique, of "''u-root''"
             "[''u-root2'', ''u-2'', ''u-root'']"]
  from A [THEN conjunct1] example_facts(2,4,6)
  have 1: "remove ''u-root'' example_state = (Inl (Unauthorized msg_no_permission), example_state)"
    by blast
  from B [THEN conjunct2, THEN conjunct1] example_facts(3,5,7)
  have "remove ''u-2'' example_state =
     (Inr \<lparr>success = True\<rparr>,
      example_state\<lparr>users := filter (\<lambda>r. \<not> has_id ''u-2'' r) (users example_state)\<rparr>)"
    by blast
  then have 2: "remove ''u-2'' example_state =
     (Inr \<lparr>success = True\<rparr>, example_state\<lparr>users := [example_root]\<rparr>)"
    by (simp only: del)
  from A [THEN conjunct2, THEN conjunct2, THEN conjunct1] r1
  obtain first rest where fr: "set (first # rest) = {''u-root''}" "distinct (first # rest)"
    and m: "batchRemove [''u-2'', ''u-root''] example_state =
            (Inl (Unauthorized
               (msg_root_not_deletable @ first @ concat (map (\<lambda>j. '', '' @ j) rest))),
             example_state)"
    by auto
  from fr have "first = ''u-root''" by auto
  moreover from fr have "rest = []" by (cases rest) auto
  ultimately have "first = ''u-root''" "rest = []" by simp_all
  with m have 3: "batchRemove [''u-2'', ''u-root''] example_state =
     (Inl (Unauthorized (msg_root_not_deletable @ ''u-root'')), example_state)"
    by simp
  from B [THEN conjunct2, THEN conjunct2, THEN conjunct2, THEN conjunct2] r2
  have "batchRemove [''u-2'', ''u-9''] example_state =
         (Inr \<lparr>success = fst (userService_deleteMany (users example_state) [''u-2'', ''u-9''])\<rparr>,
          example_state\<lparr>users := filter (\<lambda>r. \<not> list_ex (\<lambda>j. has_id j r) [''u-2'', ''u-9''])
                                     (users example_state)\<rparr>)"
    by blast
  then have 4: "batchRemove [''u-2'', ''u-9''] example_state =
     (Inr \<lparr>success = True\<rparr>, example_state\<lparr>users := [example_root]\<rparr>)"
    using del2 by simp
  from C [THEN conjunct2, THEN conjunct2, THEN conjunct1] r3
  obtain f2 rest2 where fr2: "set (f2 # rest2) = {''u-root'', ''u-root2''}" "distinct (f2 # rest2)"
    and m2: "batchRemove [''u-root2'', ''u-2'', ''u-root''] example_state2 =
            (Inl (Unauthorized
               (msg_root_not_deletable @ f2 @ concat (map (\<lambda>j. '', '' @ j) rest2))),
             example_state2)"
    by auto
  have direct: "batchRemove [''u-root2'', ''u-2'', ''u-root''] example_state2 =
       (Inl (Unauthorized (msg_root_not_deletable @ ''u-root, u-root2'')), example_state2)"
    using example_facts(6,7) root2
    by (simp add: batchRemove_def userService_findAll_in_def u2 ids join_str_def
        example_root_def [THEN fun_cong] example_root2_def [THEN fun_cong])
  from m2 direct have 5: "batchRemove [''u-root2'', ''u-2'', ''u-root''] example_state2 =
       (Inl (Unauthorized (msg_root_not_deletable @ ''u-root, u-root2'')), example_state2)"
    by simp
  from 1 2 3 4 5 show ?thesis by (intro conjI)
qed

text \<open>
  C3: the result of \<open>update\<close>, and the user table it leaves, do not depend on how the
  invalidation of the permission cache ends: they are the same for any two outcomes. After
  a successful update the invalidation has been requested for the id, and a failure of it
  is logged as a warning and nothing else; it is never the result of \<open>update\<close>. A
  failed update requests no invalidation and leaves the state as it was.
\<close>

theorem C3_update_cache_invalidation:
  "fst (update settles i patch a s) = fst (update settles' i patch a s) \<and>
   users (snd (update settles i patch a s)) = users (snd (update settles' i patch a s)) \<and>
   (\<forall>r. fst (update settles i patch a s) = Inr r \<longrightarrow>
        cacheClears (snd (update settles i patch a s)) = cacheClears s @ [i] \<and>
        warnings (snd (update settles i patch a s)) =
          warnings s @ (case settles of None \<Rightarrow> [] | Some m \<Rightarrow> [msg_clear_cache_failed @ m])) \<and>
   (\<forall>e. fst (update settles i patch a s) = Inl e \<longrightarrow> snd (update settles i patch a s) = s)"
proof (cases "userService_findOne (users s) i")
  case None
  then show ?thesis by (simp add: update_missing)
next
  case (Some u)
  then show ?thesis by (simp add: update_found)
qed

text \<open>
  On the sample table, with an invalidation that fails: the update of the ordinary user
  returns the patched row, the invalidation was requested and the failure is a warning.
\<close>

theorem C3_update_cache_witness:
  "fst (update (Some ''redis down'') ''u-2'' [''nickname'' \<mapsto> VStr ''bea'']
          \<lparr>playground_id = ''u-root''\<rparr> example_state)
     = Inr (exclude_fields [''password''] (example_member ++ [''nickname'' \<mapsto> VStr ''bea''])) \<and>
   cacheClears (snd (update (Some ''redis down'') ''u-2'' [''nickname'' \<mapsto> VStr ''bea'']
          \<lparr>playground_id = ''u-root''\<rparr> example_state)) = [''u-2''] \<and>
   warnings (snd (update (Some ''redis down'') ''u-2'' [''nickname'' \<mapsto> VStr ''bea'']
          \<lparr>playground_id = ''u-root''\<rparr> example_state)) = [msg_clear_cache_failed @ ''redis down'']"
proof -
  have f: "userService_findOne (users example_state) ''u-2'' = Some example_member"
    by (rule findOne_stored) (rule example_facts)+
  have r: "fst (update (Some ''redis down'') ''u-2'' [''nickname'' \<mapsto> VStr ''bea'']
          \<lparr>playground_id = ''u-root''\<rparr> example_state)
     = Inr (exclude_fields [''password''] (example_member ++ [''nickname'' \<mapsto> VStr ''bea'']))"
    using example_facts(7) by (simp add: update_found [OF f])
  have e: "cacheClears example_state = []" "warnings example_state = []"
    by (simp_all add: example_state_def)
  from C3_update_cache_invalidation [of "Some ''redis down''" "''u-2''"
      "[''nickname'' \<mapsto> VStr ''bea'']" "\<lparr>playground_id = ''u-root''\<rparr>" example_state None] r e
  show ?thesis by simp
qed

text \<open>What the two reads leave out of the row they return.\<close>

lemma findOneById_redacts:
  "findOneById j s = Inr r \<Longrightarrow> r ''password'' = None \<and> r ''openid'' = None"
  by (auto simp: findOneById_def userService_findOneById_def exclude_fields_def
      split: option.splits)

lemma getUserInfo_redacts_password:
  "getUserInfo gp gm a s = Inr r \<Longrightarrow> info_user r ''password'' = None"
  by (auto simp: getUserInfo_def userService_findOneById_def exclude_fields_def Let_def
      split: option.splits)

lemma getUserInfo_openid:
  "userService_findOne (users s) (playground_id a) = Some u \<Longrightarrow>
   \<exists>r. getUserInfo gp gm a s = Inr r \<and> info_user r ''openid'' = u ''openid''"
  by (auto simp: getUserInfo_def userService_findOneById_def userService_findOne_def
      exclude_fields_def Let_def)

text \<open>
  C7: on the sample table, the read of the current user's info returns the row of the
  ordinary user without its password but with its \<open>openid\<close>, while the read of the same
  user by id returns it without either: \<open>getUserInfo\<close> excludes only the password, where
  \<open>findOneById\<close> excludes the password and the \<open>openid\<close>.
\<close>

theorem C7_getUserInfo_returns_openid:
  "map_sum id (\<lambda>r. (info_user r ''password'', info_user r ''openid''))
     (getUserInfo (\<lambda>_. []) (\<lambda>_. ()) \<lparr>playground_id = ''u-2''\<rparr> example_state)
     = Inr (None, Some (VStr ''wx-2'')) \<and>
   map_sum id (\<lambda>r. (r ''password'', r ''openid'')) (findOneById ''u-2'' example_state)
     = Inr (None, None)"
  by (simp add: getUserInfo_def findOneById_def userService_findOneById_def
      repository_findOne_def exclude_fields_def example_state_def has_id_def
      example_root_def example_member_def Let_def)

lemma find_map_rows:
  "(\<And>r. P (f r) = P r) \<Longrightarrow> List.find P (map f rows) = map_option f (List.find P rows)"
  by (induction rows) auto

text \<open>
  C8: for a stored user, \<open>resetPasswordAuto\<close> returns the generated password in its
  result, and the table it leaves is the one the password reset of the user service
  leaves for that password: the row of the user now holds the hash of the generated
  password in its credential field. No read of the resulting state, of a single user by
  id or of the current user's info, returns a password field.
\<close>

theorem C8_resetPasswordAuto_once:
  assumes "unique_ids (users s)" and "u \<in> set (users s)" and "has_id i u"
  shows "fst (resetPasswordAuto hash randomPassword i s) = Inr \<lparr>password = randomPassword\<rparr> \<and>
         users (snd (resetPasswordAuto hash randomPassword i s)) =
           snd (userService_resetPassword hash (users s) i randomPassword) \<and>
         userService_findOne (users (snd (resetPasswordAuto hash randomPassword i s))) i =
           Some (u(''password'' \<mapsto> VStr (hash randomPassword))) \<and>
         (\<forall>j r. findOneById j (snd (resetPasswordAuto hash randomPassword i s)) = Inr r \<longrightarrow>
                  r ''password'' = None) \<and>
         (\<forall>gp gm a r. getUserInfo gp gm a (snd (resetPasswordAuto hash randomPassword i s)) = Inr r \<longrightarrow>
                  info_user r ''password'' = None)"
proof -
  let ?saved = "u(''password'' \<mapsto> VStr (hash randomPassword))"
  let ?f = "\<lambda>r. if has_id i r then ?saved else r"
  from assms have f: "userService_findOne (users s) i = Some u" by (rule findOne_stored)
  then have run: "resetPasswordAuto hash randomPassword i s =
      (Inr \<lparr>password = randomPassword\<rparr>, s\<lparr>users := map ?f (users s)\<rparr>)"
    by (simp add: resetPasswordAuto_def userService_resetPassword_def userService_findOne_def
        Let_def)
  from f have svc: "snd (userService_resetPassword hash (users s) i randomPassword) = map ?f (users s)"
    by (simp add: userService_resetPassword_def userService_findOne_def Let_def)
  have keep: "has_id i (?f r) = has_id i r" for r
    using assms(3) by (simp add: has_id_def)
  have "List.find (has_id i) (map ?f (users s)) = map_option ?f (List.find (has_id i) (users s))"
    by (rule find_map_rows) (rule keep)
  with f assms(3) have stored: "userService_findOne (map ?f (users s)) i = Some ?saved"
    by (simp add: userService_findOne_def repository_findOne_def)
  show ?thesis
    using stored svc findOneById_redacts getUserInfo_redacts_password
    by (simp add: run) blast
qed

text \<open>On the sample table, with a hash that prefixes its argument.\<close>

theorem C8_resetPasswordAuto_witness:
  "fst (resetPasswordAuto (\<lambda>p. ''h:'' @ p) ''Xk3!pq'' ''u-2'' example_state)
     = Inr \<lparr>password = ''Xk3!pq''\<rparr> \<and>
   map_option (\<lambda>r. r ''password'')
     (userService_findOne
        (users (snd (resetPasswordAuto (\<lambda>p. ''h:'' @ p) ''Xk3!pq'' ''u-2'' example_state))) ''u-2'')
     = Some (Some (VStr ''h:Xk3!pq''))"
  using C8_resetPasswordAuto_once [OF example_facts(1) example_facts(3) example_facts(5),
      of "\<lambda>p. ''h:'' @ p" "''Xk3!pq''"]
  by (clarsimp simp del: fun_upd_apply) simp

section \<open>Properties of the restart coordinator\<close>

lemma restartApplication_idle:
  "\<not> isRestarting s \<Longrightarrow>
   restartApplication env s =
     (\<lparr>restart_success = True, message = msg_restart_sent\<rparr>,
      s\<lparr>isRestarting := True,
        logger := logger s @
          [LogLine (msg_restarting_port @
             num_str (parseInt (env_or (SERVER_PORT env) ''4090'') (Some 10)) @ ''...'')],
        timers := timers s @
          [\<lparr>delay = 1000, isPm2 = checkIfRunningWithPm2 env,
            pm2AppName = env_or (PM2_APP_NAME env) ''fastbuildai''\<rparr>]\<rparr>)"
  by (simp add: restartApplication_def restart_enter_def restart_resume_def logger_add_def
      Let_def)

lemma restartApplication_pending:
  "isRestarting s \<Longrightarrow>
   restartApplication env s =
     (\<lparr>restart_success = False, message = msg_already_restarting\<rparr>,
      s\<lparr>logger := logger s @ [WarnLine msg_already_restarting]\<rparr>)"
  by (simp add: restartApplication_def restart_enter_def logger_add_def)

lemma guarded_initial: "guarded initial_state"
  by (simp add: guarded_def initial_state_def in_flight_def)

lemma guarded_action:
  assumes "guarded s" and "timers s = t # ts"
  shows "guarded (restart_action t r (s\<lparr>timers := ts\<rparr>))"
proof -
  from assms have z: "probing s = 0" "ts = []" "commands s = []"
    by (auto simp: guarded_def in_flight_def)
  from assms have flag: "isRestarting s \<or> exited s \<noteq> None"
    by (simp add: guarded_def in_flight_def)
  show ?thesis
    using flag
    by (cases r)
       (auto simp: z restart_action_def guarded_def in_flight_def logger_add_def
          process_exit_def Let_def)
qed

lemma guarded_step: "guarded s \<Longrightarrow> guarded (step e s)"
proof (cases e)
  case (Request env)
  assume "guarded s"
  then show ?thesis
    by (auto simp: Request step_def restart_enter_def guarded_def in_flight_def logger_add_def
        Let_def)
next
  case (Probed env)
  assume g: "guarded s"
  show ?thesis
  proof (cases "probing s = 0 \<or> exited s \<noteq> None")
    case True
    with g show ?thesis by (auto simp: Probed step_def)
  next
    case False
    with g have "probing s + length (timers s) + length (commands s) \<le> 1" "0 < probing s"
      by (simp_all add: guarded_def in_flight_def)
    then have "length (timers s) = 0" "length (commands s) = 0" "probing s = 1"
      by arith+
    with g False show ?thesis
      by (auto simp: Probed step_def restart_resume_def guarded_def in_flight_def Let_def)
  qed
next
  case (TimerFired r)
  assume g: "guarded s"
  show ?thesis
  proof (cases "timers s")
    case Nil
    with g show ?thesis by (simp add: TimerFired step_def)
  next
    case (Cons t ts)
    with g guarded_action [OF g Cons, of r] show ?thesis
      by (simp add: TimerFired step_def)
  qed
qed

lemma guarded_foldl: "guarded s \<Longrightarrow> guarded (foldl (\<lambda>st e. step e st) s es)"
  by (induction es arbitrary: s) (simp_all add: guarded_step)

lemma guarded_run: "guarded (run es initial_state)"
  unfolding run_def by (rule guarded_foldl) (rule guarded_initial)

text \<open>
  C4: a call of \<open>restartApplication\<close> that finds the flag clear sets it, schedules
  exactly one restart action (one second later) and returns the accepted result, without
  running a command or exiting; a call that finds the flag set returns the declined
  result as a normal response and schedules nothing. Whatever requests, probe answers and
  timer firings the process sees from its start, at most one restart is in flight, and
  at most one restart command is ever run.
\<close>

theorem C4_restart_single_flight:
  "(\<not> isRestarting s \<longrightarrow>
      fst (restartApplication env s) = \<lparr>restart_success = True, message = msg_restart_sent\<rparr> \<and>
      isRestarting (snd (restartApplication env s)) \<and>
      timers (snd (restartApplication env s)) =
        timers s @ [\<lparr>delay = 1000, isPm2 = checkIfRunningWithPm2 env,
                     pm2AppName = env_or (PM2_APP_NAME env) ''fastbuildai''\<rparr>] \<and>
      commands (snd (restartApplication env s)) = commands s \<and>
      exited (snd (restartApplication env s)) = exited s) \<and>
   (isRestarting s \<longrightarrow>
      fst (restartApplication env s) =
        \<lparr>restart_success = False, message = msg_already_restarting\<rparr> \<and>
      isRestarting (snd (restartApplication env s)) \<and>
      timers (snd (restartApplication env s)) = timers s \<and>
      probing (snd (restartApplication env s)) = probing s \<and>
      commands (snd (restartApplication env s)) = commands s \<and>
      exited (snd (restartApplication env s)) = exited s) \<and>
   in_flight (run es initial_state) \<le> 1 \<and>
   length (commands (run es initial_state)) \<le> 1"
proof -
  from guarded_run [of es] have "in_flight (run es initial_state) \<le> 1"
    and "length (commands (run es initial_state)) \<le> 1"
    by (simp_all add: guarded_def)
  then show ?thesis
    by (simp add: restartApplication_idle restartApplication_pending)
qed

text \<open>Two calls in a row on a fresh process under PM2: accepted, then declined.\<close>

theorem C4_restart_witness:
  "fst (restartApplication example_env initial_state) =
      \<lparr>restart_success = True, message = msg_restart_sent\<rparr> \<and>
   timers (snd (restartApplication example_env initial_state)) =
      [\<lparr>delay = 1000, isPm2 = True, pm2AppName = ''fastbuildai''\<rparr>] \<and>
   fst (restartApplication example_env (snd (restartApplication example_env initial_state))) =
      \<lparr>restart_success = False, message = msg_already_restarting\<rparr> \<and>
   timers (snd (restartApplication example_env (snd (restartApplication example_env initial_state)))) =
      [\<lparr>delay = 1000, isPm2 = True, pm2AppName = ''fastbuildai''\<rparr>]"
proof -
  have idle: "\<not> isRestarting initial_state" and none: "timers initial_state = []"
    by (simp_all add: initial_state_def)
  have env: "checkIfRunningWithPm2 example_env" "env_or (PM2_APP_NAME example_env) ''fastbuildai'' = ''fastbuildai''"
    by (simp_all add: checkIfRunningWithPm2_def example_env_def env_set_def env_or_def)
  from C4_restart_single_flight [of initial_state example_env "[]"] idle none env
  have first: "fst (restartApplication example_env initial_state) =
        \<lparr>restart_success = True, message = msg_restart_sent\<rparr>"
     "isRestarting (snd (restartApplication example_env initial_state))"
     "timers (snd (restartApplication example_env initial_state)) =
        [\<lparr>delay = 1000, isPm2 = True, pm2AppName = ''fastbuildai''\<rparr>]"
    by simp_all
  from C4_restart_single_flight
         [of "snd (restartApplication example_env initial_state)" example_env "[]"] first
  show ?thesis by simp
qed

text \<open>
  C5: the scheduled action of a process under a supervisor runs the restart command;
  when the command fails the process exits with code 0; when the action itself throws,
  the process exits with code 1 and the flag is cleared. Without a supervisor the action
  runs no command and the process exits with code 0.
\<close>

theorem C5_restart_action_exits:
  "(isPm2 t \<longrightarrow>
      (\<forall>out. commands (restart_action t (Resolved out) s) =
                 commands s @ [''pm2 restart '' @ pm2AppName t] \<and>
              exited (restart_action t (Resolved out) s) = exited s) \<and>
      (\<forall>m. commands (restart_action t (Rejected m) s) =
                 commands s @ [''pm2 restart '' @ pm2AppName t] \<and>
            exited (restart_action t (Rejected m) s) = Some 0) \<and>
      (\<forall>m. exited (restart_action t (Threw m) s) = Some 1 \<and>
            \<not> isRestarting (restart_action t (Threw m) s))) \<and>
   (\<not> isPm2 t \<longrightarrow>
      (\<forall>r. commands (restart_action t r s) = commands s \<and>
           exited (restart_action t r s) = Some 0))"
  by (simp add: restart_action_def logger_add_def process_exit_def Let_def)

text \<open>The three ways to the exit on a fresh process: command failed, action threw, no supervisor.\<close>

theorem C5_restart_action_witness:
  "exited (restart_action \<lparr>delay = 1000, isPm2 = True, pm2AppName = ''fastbuildai''\<rparr>
             (Rejected ''spawn pm2 ENOENT'') initial_state) = Some 0 \<and>
   commands (restart_action \<lparr>delay = 1000, isPm2 = True, pm2AppName = ''fastbuildai''\<rparr>
             (Rejected ''spawn pm2 ENOENT'') initial_state) = [''pm2 restart fastbuildai''] \<and>
   exited (restart_action \<lparr>delay = 1000, isPm2 = True, pm2AppName = ''fastbuildai''\<rparr>
             (Threw ''EMFILE'') initial_state) = Some 1 \<and>
   exited (restart_action \<lparr>delay = 1000, isPm2 = False, pm2AppName = ''fastbuildai''\<rparr>
             (Resolved []) initial_state) = Some 0"
  using C5_restart_action_exits
          [of "\<lparr>delay = 1000, isPm2 = True, pm2AppName = ''fastbuildai''\<rparr>" initial_state]
        C5_restart_action_exits
          [of "\<lparr>delay = 1000, isPm2 = False, pm2AppName = ''fastbuildai''\<rparr>" initial_state]
  by (simp add: initial_state_def)

section \<open>Properties of the grouping by date\<close>

subsection \<open>The sort\<close>

text \<open>
  The sorted list is a permutation of the input, and it is ordered by a weight as soon
  as the comparison function is the difference of the weights on the elements at hand.
\<close>

lemma mset_insert_sorted: "mset (insert_sorted cmp x xs) = add_mset x (mset xs)"
  by (induction xs) auto

lemma mset_array_sort: "mset (array_sort cmp xs) = mset xs"
  by (induction xs) (auto simp: array_sort_def mset_insert_sorted)

lemma set_array_sort: "set (array_sort cmp xs) = set xs"
  using mset_array_sort [of cmp xs] by (metis set_mset_mset)

lemma set_insert_sorted: "set (insert_sorted cmp x xs) = insert x (set xs)"
  using mset_insert_sorted [of cmp x xs] by (metis set_mset_add_mset_insert set_mset_mset)

lemma sorted_insert_sorted:
  assumes "\<And>y. y \<in> set xs \<Longrightarrow> cmp x y = Some (w x - w y)"
    and "sorted (map w xs)"
  shows "sorted (map w (insert_sorted cmp x xs))"
  using assms
proof (induction xs)
  case Nil
  then show ?case by simp
next
  case (Cons y ys)
  have c: "comes_after cmp x y \<longleftrightarrow> w y < w x"
    using Cons.prems(1) [of y] by (simp add: comes_after_def)
  show ?case
  proof (cases "w y < (w x :: int)")
    case True
    from Cons have "sorted (map w (insert_sorted cmp x ys))" by simp
    with True c Cons.prems(2) show ?thesis
      by (auto simp: set_insert_sorted)
  next
    case False
    with c Cons.prems(2) show ?thesis by auto
  qed
qed

lemma sorted_array_sort:
  assumes "\<And>x y. x \<in> set xs \<Longrightarrow> y \<in> set xs \<Longrightarrow> cmp x y = Some (w x - w y)"
  shows "sorted (map w (array_sort cmp xs))"
  using assms
proof (induction xs)
  case Nil
  then show ?case by (simp add: array_sort_def)
next
  case (Cons x xs)
  have "sorted (map w (array_sort cmp xs))"
    by (rule Cons.IH) (simp add: Cons.prems)
  moreover have "cmp x y = Some (w x - w y)" if "y \<in> set (array_sort cmp xs)" for y
    using that by (simp add: set_array_sort Cons.prems)
  ultimately have "sorted (map w (insert_sorted cmp x (array_sort cmp xs)))"
    by (intro sorted_insert_sorted)
  then show ?case by (simp add: array_sort_def)
qed

subsection \<open>The map of groups\<close>

text \<open>
  Filling the map keeps its keys distinct, keeps every item under the key computed for
  it, and adds every item once.
\<close>

lemma keys_groups_push:
  "map fst (groups_push k x g) = (if k \<in> set (map fst g) then map fst g else map fst g @ [k])"
  by (induction g) (auto split: if_splits)

lemma distinct_groups_push:
  "distinct (map fst g) \<Longrightarrow> distinct (map fst (groups_push k x g))"
  by (simp add: keys_groups_push)

lemma items_groups_push:
  "mset (concat (map snd (groups_push k x g))) = add_mset x (mset (concat (map snd g)))"
  by (induction g) auto

lemma keyed_groups_push:
  assumes "\<And>k' its y. (k', its) \<in> set g \<Longrightarrow> y \<in> set its \<Longrightarrow> f y = k'"
    and "(k', its) \<in> set (groups_push (f x) x g)" and "y \<in> set its"
  shows "f y = k'"
  using assms
proof (induction g)
  case Nil
  then show ?case by simp
next
  case (Cons p g)
  obtain k0 xs where p: "p = (k0, xs)" by (cases p)
  show ?case
  proof (cases "f x = k0")
    case True
    with Cons.prems(2) p consider "k' = k0 \<and> its = xs @ [x]" | "(k', its) \<in> set g"
      by auto
    then show ?thesis
    proof cases
      case 1
      with Cons.prems(1) [of k0 xs y] Cons.prems(3) p True show ?thesis by auto
    next
      case 2
      with Cons.prems(1) [of k' its y] Cons.prems(3) show ?thesis by simp
    qed
  next
    case False
    with Cons.prems(2) p consider "(k', its) = (k0, xs)" | "(k', its) \<in> set (groups_push (f x) x g)"
      by auto
    then show ?thesis
    proof cases
      case 1
      with Cons.prems(1) [of k0 xs y] Cons.prems(3) p show ?thesis by simp
    next
      case 2
      show ?thesis
        by (rule Cons.IH [OF _ 2 Cons.prems(3)]) (rule Cons.prems(1), simp_all)
    qed
  qed
qed

lemma groups_fold:
  fixes f :: "'a \<Rightarrow> string"
  defines "build \<equiv> \<lambda>g xs. foldl (\<lambda>g item. groups_push (f item) item g) g xs"
  assumes "distinct (map fst g)"
    and "\<And>k its y. (k, its) \<in> set g \<Longrightarrow> y \<in> set its \<Longrightarrow> f y = k"
  shows "distinct (map fst (build g xs)) \<and>
         mset (concat (map snd (build g xs))) = mset (concat (map snd g)) + mset xs \<and>
         (\<forall>(k, its) \<in> set (build g xs). \<forall>y \<in> set its. f y = k) \<and>
         set (map fst (build g xs)) = set (map fst g) \<union> f ` set xs"
  using assms(2,3)
proof (induction xs arbitrary: g)
  case Nil
  then show ?case by (auto simp: build_def)
next
  case (Cons x xs)
  let ?g = "groups_push (f x) x g"
  have d: "distinct (map fst ?g)" using Cons.prems(1) by (rule distinct_groups_push)
  have k: "f y = k" if "(k, its) \<in> set ?g" "y \<in> set its" for k its y
    using Cons.prems(2) that by (rule keyed_groups_push)
  have step: "build g (x # xs) = build ?g xs" by (simp add: build_def)
  from Cons.IH [OF d k] show ?case
    unfolding step by (auto simp: items_groups_push keys_groups_push)
qed

subsection \<open>Printing a number and reading it back\<close>

lemma digit_char_in: "digit_char d \<in> set ''0123456789''"
  by (simp add: digit_char_def)

lemma digit_of_digit_char: "d < 10 \<Longrightarrow> digit_of 10 (digit_char d) = Some d"
proof -
  assume "d < 10"
  then have "d = 0 \<or> d = 1 \<or> d = 2 \<or> d = 3 \<or> d = 4 \<or> d = 5 \<or> d = 6 \<or> d = 7 \<or> d = 8 \<or> d = 9"
    by arith
  then show ?thesis
    by (elim disjE) (simp_all add: digit_char_def digit_of_def)
qed

lemma decimal_char:
  assumes "c \<in> set ''0123456789''"
  shows "digit_of 10 c \<noteq> None" and "\<not> is_ws c" and "c \<noteq> CHR ''-''" and "c \<noteq> CHR ''+''"
    and "c \<noteq> CHR ''x''" and "c \<noteq> CHR ''X''"
  using assms by (auto simp: digit_of_def is_ws_def)

lemma nat_str_chars: "set (nat_str n) \<subseteq> set ''0123456789''"
proof (induction n rule: nat_str.induct)
  case (1 n)
  show ?case
  proof (cases "n < 10")
    case True
    then show ?thesis using digit_char_in [of n] by (subst nat_str.simps) simp
  next
    case False
    with 1 digit_char_in [of "n mod 10"] show ?thesis
      by (subst nat_str.simps) simp
  qed
qed

lemma nat_str_not_Nil: "nat_str n \<noteq> []"
  by (subst nat_str.simps) simp

lemma digits_value_snoc:
  "digits_value r (ds @ [c]) =
     (case digit_of r c of Some d \<Rightarrow> digits_value r ds * r + d | None \<Rightarrow> digits_value r ds)"
  by (simp add: digits_value_def split: option.splits)

lemma digits_value_nat_str: "digits_value 10 (nat_str n) = n"
proof (induction n rule: nat_str.induct)
  case (1 n)
  show ?case
  proof (cases "n < 10")
    case True
    then show ?thesis
      by (subst nat_str.simps) (simp add: digits_value_def digit_of_digit_char)
  next
    case False
    with 1 have "digits_value 10 (nat_str (n div 10)) = n div 10" by simp
    with False show ?thesis
      by (subst nat_str.simps) (simp add: digits_value_snoc digit_of_digit_char)
  qed
qed

lemma parseInt_decimal:
  assumes "s \<noteq> []" and "set s \<subseteq> set ''0123456789''"
  shows "parseInt s None = Some (int (digits_value 10 s))"
proof -
  obtain c cs where s: "s = c # cs" using assms(1) by (cases s) auto
  with assms(2) have c: "c \<in> set ''0123456789''" by auto
  have all: "\<forall>x \<in> set s. digit_of 10 x \<noteq> None"
    using assms(2) decimal_char(1) by blast
  then have tw: "takeWhile (\<lambda>c. digit_of 10 c \<noteq> None) s = s"
    by (simp add: takeWhile_eq_all_conv)
  have dw: "dropWhile is_ws s = s"
    using decimal_char(2) [OF c] by (simp add: s)
  have hex: "strip_hex_prefix s = None"
  proof (cases cs)
    case Nil
    then show ?thesis by (simp add: strip_hex_prefix_def s)
  next
    case (Cons d ds)
    with assms(2) s have "d \<in> set ''0123456789''" by auto
    from decimal_char(5,6) [OF this] Cons show ?thesis
      by (simp add: strip_hex_prefix_def s)
  qed
  have sign: "c \<noteq> CHR ''-''" "c \<noteq> CHR ''+''"
    using decimal_char(3,4) [OF c] by auto
  have "parseInt s None = parse_digits 10 False s"
    using dw hex sign by (simp add: parseInt_def s Let_def)
  also have "\<dots> = Some (int (digits_value 10 s))"
    unfolding parse_digits_def Let_def tw using assms(1) by simp
  finally show ?thesis .
qed

lemma parseInt_nat_str: "parseInt (nat_str n) None = Some (int n)"
  using parseInt_decimal [OF nat_str_not_Nil nat_str_chars, of n]
  by (simp add: digits_value_nat_str)

lemma split_on_no_sep: "sep \<notin> set s \<Longrightarrow> split_on sep s = [s]"
  by (induction s) auto

lemma split_on_two:
  "sep \<notin> set a \<Longrightarrow> sep \<notin> set b \<Longrightarrow> split_on sep (a @ sep # b) = [a, b]"
  by (induction a) (auto simp: split_on_no_sep)

lemma nat_str_no_dash: "CHR ''-'' \<notin> set (nat_str n)"
  using nat_str_chars [of n] by auto

lemma getGroupWeight_year_month:
  "getGroupWeight (nat_str y @ ''-'' @ nat_str m) = Some (1000 + int y * 100 + int m)"
proof -
  let ?k = "nat_str y @ CHR ''-'' # nat_str m"
  have dash: "CHR ''-'' \<in> set ?k" by simp
  have other: "?k \<noteq> k'" if "CHR ''-'' \<notin> set k'" for k'
    using dash that by metis
  have named: "?k \<noteq> ''today''" "?k \<noteq> ''yesterday''" "?k \<noteq> ''week''" "?k \<noteq> ''month''"
    by (rule other, simp)+
  have sp: "split_on CHR ''-'' ?k = [nat_str y, nat_str m]"
    using split_on_two [OF nat_str_no_dash nat_str_no_dash, of y m] by simp
  have "getGroupWeight ?k = Some (1000 + int y * 100 + int m)"
    unfolding getGroupWeight_def Let_def sp
    using named dash
    by (simp add: nth_opt_def parseInt_opt_def parseInt_nat_str num_add_def num_mul_def
        del: set_append)
  then show ?thesis by simp
qed

subsection \<open>Keys and weights of dated items\<close>

lemma int_str_nonneg: "0 \<le> i \<Longrightarrow> int_str i = nat_str (nat i)"
  by (simp add: int_str_def)

lemma getDateGroup_dated:
  assumes "dated d"
  shows "getDateGroup now d \<in> {''today'', ''yesterday'', ''week'', ''month''} \<or>
         (\<exists>y m. getDateGroup now d = nat_str y @ ''-'' @ nat_str m)"
proof -
  from assms obtain t y m s where d: "d = ValidDate t y m s" and y: "0 \<le> y"
    by (cases d) (auto simp: dated_def)
  have ym: "num_str (getFullYear d) @ ''-'' @ num_str (num_add (getMonth d) (Some 1)) =
            nat_str (nat y) @ ''-'' @ nat_str (nat (int m + 1))"
    using y by (simp add: d num_str_def getFullYear_def getMonth_def num_add_def int_str_nonneg)
  show ?thesis
    unfolding getDateGroup_def Let_def ym
    by (auto simp del: append.simps)
qed

lemma weight_named:
  "getGroupWeight ''today'' = Some 1" "getGroupWeight ''yesterday'' = Some 2"
  "getGroupWeight ''week'' = Some 3" "getGroupWeight ''month'' = Some 4"
  by (simp_all add: getGroupWeight_def)

lemma rank_year_month: "named_rank (nat_str y @ ''-'' @ nat_str m) = 4"
proof -
  let ?k = "nat_str y @ CHR ''-'' # nat_str m"
  have dash: "CHR ''-'' \<in> set ?k" by simp
  have other: "?k \<noteq> k'" if "CHR ''-'' \<notin> set k'" for k'
    using dash that by metis
  have named: "?k \<noteq> ''today''" "?k \<noteq> ''yesterday''" "?k \<noteq> ''week''" "?k \<noteq> ''month''"
    by (rule other, simp)+
  then have "named_rank ?k = 4" by (simp add: named_rank_def del: set_append)
  then show ?thesis by simp
qed

lemma key_weight:
  fixes now d
  defines "k \<equiv> getDateGroup now d"
  assumes "dated d"
  shows "getGroupWeight k = Some (weight_of k)"
    and "named_rank k < 4 \<Longrightarrow> weight_of k = int (named_rank k) + 1"
    and "named_rank k = 4 \<Longrightarrow> 1000 \<le> weight_of k"
    and "named_rank k \<le> 4"
proof -
  from getDateGroup_dated [OF assms(2), of now]
  consider "k = ''today''" | "k = ''yesterday''" | "k = ''week''" | "k = ''month''"
    | y m where "k = nat_str y @ ''-'' @ nat_str m"
    unfolding k_def by blast
  then have "getGroupWeight k = Some (weight_of k) \<and>
             (named_rank k < 4 \<longrightarrow> weight_of k = int (named_rank k) + 1) \<and>
             (named_rank k = 4 \<longrightarrow> 1000 \<le> weight_of k) \<and> named_rank k \<le> 4"
  proof cases
    case 5
    have "getGroupWeight k = Some (1000 + int y * 100 + int m)"
      unfolding 5 by (rule getGroupWeight_year_month)
    moreover have "named_rank k = 4" unfolding 5 by (rule rank_year_month)
    ultimately show ?thesis by (simp add: weight_of_def)
  qed (simp_all add: weight_of_def weight_named named_rank_def)
  then show "getGroupWeight k = Some (weight_of k)"
    and "named_rank k < 4 \<Longrightarrow> weight_of k = int (named_rank k) + 1"
    and "named_rank k = 4 \<Longrightarrow> 1000 \<le> weight_of k"
    and "named_rank k \<le> 4"
    by simp_all
qed

lemma rank_mono:
  assumes "dated d" and "dated e"
    and "weight_of (getDateGroup now d) \<le> weight_of (getDateGroup now e)"
  shows "named_rank (getDateGroup now d) \<le> named_rank (getDateGroup now e)"
proof -
  let ?a = "getDateGroup now d" and ?b = "getDateGroup now e"
  note A = key_weight(2-4) [OF assms(1), of now] and B = key_weight(2-4) [OF assms(2), of now]
  show ?thesis
  proof (cases "named_rank ?b = 4")
    case True
    with A(3) show ?thesis by simp
  next
    case False
    with B(3) have b: "named_rank ?b < 4" by simp
    show ?thesis
    proof (cases "named_rank ?a = 4")
      case True
      with A(2) B(1) [OF b] b assms(3) show ?thesis by simp
    next
      case False
      with A(3) have "named_rank ?a < 4" by simp
      with A(1) B(1) [OF b] assms(3) show ?thesis by simp
    qed
  qed
qed

subsection \<open>The grouping\<close>

lemma sort_keys:
  fixes now :: jsdate and dateOf :: "'a \<Rightarrow> jsdate"
  assumes "\<And>g. g \<in> set gs \<Longrightarrow> \<exists>x. dated (dateOf x) \<and> key g = getDateGroup now (dateOf x)"
  defines "byWeight \<equiv> \<lambda>a b. num_sub (getGroupWeight (key a)) (getGroupWeight (key b))"
  shows "sorted (map (named_rank \<circ> key) (array_sort byWeight gs))"
proof -
  have cmp: "byWeight a b = Some (weight_of (key a) - weight_of (key b))"
    if "a \<in> set gs" "b \<in> set gs" for a b
  proof -
    from assms(1) [OF that(1)] obtain x where x: "dated (dateOf x)" "key a = getDateGroup now (dateOf x)"
      by blast
    from assms(1) [OF that(2)] obtain y where y: "dated (dateOf y)" "key b = getDateGroup now (dateOf y)"
      by blast
    from key_weight(1) [OF x(1), of now] key_weight(1) [OF y(1), of now] x(2) y(2)
    show ?thesis by (simp add: byWeight_def num_sub_def)
  qed
  have "sorted (map (weight_of \<circ> key) (array_sort byWeight gs))"
    by (rule sorted_array_sort) (simp add: cmp)
  then have w: "sorted_wrt (\<lambda>a b. weight_of (key a) \<le> weight_of (key b)) (array_sort byWeight gs)"
    by (simp add: sorted_map)
  have "sorted_wrt (\<lambda>a b. named_rank (key a) \<le> named_rank (key b)) (array_sort byWeight gs)"
  proof (rule sorted_wrt_mono_rel [OF _ w])
    fix a b
    assume "a \<in> set (array_sort byWeight gs)" "b \<in> set (array_sort byWeight gs)"
      and le: "weight_of (key a) \<le> weight_of (key b)"
    then have ab: "a \<in> set gs" "b \<in> set gs" by (simp_all add: set_array_sort)
    from assms(1) [OF ab(1)] obtain x where x: "dated (dateOf x)" "key a = getDateGroup now (dateOf x)"
      by blast
    from assms(1) [OF ab(2)] obtain y where y: "dated (dateOf y)" "key b = getDateGroup now (dateOf y)"
      by blast
    from rank_mono [OF x(1) y(1), of now] le x(2) y(2)
    show "named_rank (key a) \<le> named_rank (key b)" by simp
  qed
  then show ?thesis by (simp add: sorted_map)
qed

lemma sort_items:
  fixes dateOf :: "'a \<Rightarrow> jsdate"
  assumes "\<And>x. x \<in> set its \<Longrightarrow> dated (dateOf x)"
  defines "newestFirst \<equiv> \<lambda>a b. num_sub (getTime (dateOf b)) (getTime (dateOf a))"
  shows "sorted_wrt (\<lambda>a b. num_le (getTime (dateOf b)) (getTime (dateOf a)))
           (array_sort newestFirst its)"
proof -
  let ?w = "\<lambda>x. - time_value (dateOf x)"
  have t: "getTime (dateOf x) = Some (time_value (dateOf x))" if "x \<in> set its" for x
    using assms(1) [OF that] by (cases "dateOf x") (simp_all add: dated_def getTime_def)
  have "sorted (map ?w (array_sort newestFirst its))"
    by (rule sorted_array_sort) (simp add: newestFirst_def t num_sub_def)
  then have w: "sorted_wrt (\<lambda>a b. ?w a \<le> ?w b) (array_sort newestFirst its)"
    by (simp add: sorted_map)
  show ?thesis
  proof (rule sorted_wrt_mono_rel [OF _ w])
    fix a b
    assume "a \<in> set (array_sort newestFirst its)" "b \<in> set (array_sort newestFirst its)"
      and le: "?w a \<le> ?w b"
    then have "a \<in> set its" "b \<in> set its" by (simp_all add: set_array_sort)
    with t le show "num_le (getTime (dateOf b)) (getTime (dateOf a))"
      by (simp add: num_le_def)
  qed
qed

lemma mset_concat_sum:
  "mset (concat (map f gs)) = sum_mset (image_mset (\<lambda>g. mset (f g)) (mset gs))"
  by (induction gs) simp_all

lemma mset_concat_perm:
  "mset gs = mset hs \<Longrightarrow> mset (concat (map f gs)) = mset (concat (map f hs))"
  by (simp only: mset_concat_sum)

lemma mset_concat_sorted_items:
  "mset (concat (map (\<lambda>(k, its). array_sort cmp its) g)) = mset (concat (map snd g))"
  by (induction g) (auto simp: mset_array_sort)

text \<open>
  C9 (amended): for every input list whose items all carry a valid date of a year that is
  not negative, the groups returned have distinct keys and are ordered so that the named
  groups come in the fixed order today, yesterday, week, month, all of them before every
  year-month group; within each group the items are in descending order of their date;
  every item of a group has the group's key as its date group, and the groups together
  hold the input items, each as often as the input does.
\<close>

theorem C9_groupConversationsByDate_dated:
  fixes now :: jsdate and dateOf :: "'a \<Rightarrow> jsdate" and labelOf :: "string \<Rightarrow> 'l"
  assumes "\<forall>x \<in> set conversations. dated (dateOf x)"
  shows "sorted (map (named_rank \<circ> key)
                  (groupConversationsByDate now dateOf labelOf conversations)) \<and>
         distinct (map key (groupConversationsByDate now dateOf labelOf conversations)) \<and>
         (\<forall>g \<in> set (groupConversationsByDate now dateOf labelOf conversations).
             sorted_wrt (\<lambda>a b. num_le (getTime (dateOf b)) (getTime (dateOf a))) (items g) \<and>
             (\<forall>x \<in> set (items g). getDateGroup now (dateOf x) = key g)) \<and>
         mset (concat (map items (groupConversationsByDate now dateOf labelOf conversations))) =
           mset conversations"
proof -
  define f where "f = (\<lambda>item. getDateGroup now (dateOf item))"
  define G where "G = foldl (\<lambda>g item. groups_push (f item) item g) [] conversations"
  define newest where "newest = (\<lambda>a b. num_sub (getTime (dateOf b)) (getTime (dateOf a)))"
  define mk :: "string \<times> 'a list \<Rightarrow> ('a, 'l) GroupedConversations"
    where "mk = (\<lambda>(k, its). \<lparr>label = labelOf k, key = k, items = array_sort newest its\<rparr>)"
  define M where "M = map mk G"
  define byWeight :: "('a, 'l) GroupedConversations \<Rightarrow> ('a, 'l) GroupedConversations \<Rightarrow> jsnum"
    where "byWeight = (\<lambda>a b. num_sub (getGroupWeight (key a)) (getGroupWeight (key b)))"
  define R where "R = groupConversationsByDate now dateOf labelOf conversations"
  have R: "R = array_sort byWeight M"
    by (simp add: R_def groupConversationsByDate_def M_def mk_def G_def f_def newest_def
        byWeight_def)
  have G: "distinct (map fst G)"
          "mset (concat (map snd G)) = mset conversations"
          "\<forall>(k, its) \<in> set G. \<forall>y \<in> set its. f y = k"
          "set (map fst G) = f ` set conversations"
    using groups_fold [of "[]" f conversations] by (simp_all add: G_def)
  have mk: "key (mk p) = fst p" "items (mk p) = array_sort newest (snd p)" for p
    by (simp_all add: mk_def case_prod_unfold)
  have keysM: "map key M = map fst G"
    by (simp add: M_def mk)
  have itemsM: "map items M = map (\<lambda>(k, its). array_sort newest its) G"
    by (simp add: M_def mk case_prod_unfold)
  have msetR: "mset R = mset M" by (simp add: R mset_array_sort)
  have setR: "set R = set M" by (simp add: R set_array_sort)
  have members: "set its \<subseteq> set conversations" if "(k, its) \<in> set G" for k its
  proof -
    from that have "set its \<subseteq> set (concat (map snd G))" by force
    also have "\<dots> = set conversations"
      using G(2) by (metis set_mset_mset)
    finally show ?thesis .
  qed
  have keyM: "\<exists>x. dated (dateOf x) \<and> key g = getDateGroup now (dateOf x)" if "g \<in> set M" for g
  proof -
    from that have "key g \<in> key ` set M" by (rule imageI)
    then have "key g \<in> set (map key M)" by (simp only: set_map)
    then have "key g \<in> f ` set conversations" by (simp only: keysM G(4))
    then obtain x where "x \<in> set conversations" "key g = f x" by blast
    with assms show ?thesis unfolding f_def by blast
  qed
  have 1: "sorted (map (named_rank \<circ> key) R)"
    unfolding R byWeight_def by (rule sort_keys) (rule keyM)
  have "image_mset key (mset R) = image_mset key (mset M)"
    by (simp only: msetR)
  then have "mset (map key R) = mset (map key M)"
    by (simp only: mset_map)
  then have "distinct (map key R) = distinct (map key M)"
    by (rule mset_eq_imp_distinct_iff)
  with G(1) have 2: "distinct (map key R)" by (simp only: keysM)
  have 3: "sorted_wrt (\<lambda>a b. num_le (getTime (dateOf b)) (getTime (dateOf a))) (items g) \<and>
           (\<forall>x \<in> set (items g). getDateGroup now (dateOf x) = key g)" if "g \<in> set R" for g
  proof -
    from that have "g \<in> mk ` set G" by (simp only: setR M_def set_map)
    then obtain p where p: "p \<in> set G" "g = mk p" by blast
    obtain k its where kits: "p = (k, its)" by (cases p)
    from members [of k its] p(1) kits assms have d: "\<And>x. x \<in> set its \<Longrightarrow> dated (dateOf x)"
      by blast
    have "sorted_wrt (\<lambda>a b. num_le (getTime (dateOf b)) (getTime (dateOf a)))
            (array_sort newest its)"
      unfolding newest_def by (rule sort_items) (rule d)
    moreover have "\<forall>x \<in> set its. f x = k" using G(3) p(1) kits by blast
    ultimately show ?thesis
      by (simp add: p(2) kits mk set_array_sort f_def)
  qed
  have "mset (concat (map items R)) = mset (concat (map items M))"
    using msetR by (rule mset_concat_perm)
  also have "\<dots> = mset (concat (map snd G))"
    by (simp only: itemsM mset_concat_sorted_items)
  finally have 4: "mset (concat (map items R)) = mset conversations"
    by (simp only: G(2))
  from 1 2 3 4 show ?thesis unfolding R_def by blast
qed

text \<open>
  C9 as stated, for every input list, fails: an item whose date is invalid gets the key
  \<open>NaN-NaN\<close>, and an item dated in the year -1 the key \<open>-1-6\<close>; the weight of either key
  is \<open>NaN\<close>, the sort leaves the group where it was, and it stays in front of the group
  of today.
\<close>

theorem C9_undated_counterexample:
  "map key (groupConversationsByDate example_now id id [InvalidDate, example_now])
     = [''NaN-NaN'', ''today''] \<and>
   \<not> sorted (map (named_rank \<circ> key)
              (groupConversationsByDate example_now id id [InvalidDate, example_now])) \<and>
   map key (groupConversationsByDate example_now id id [example_bce, example_now])
     = [''-1-6'', ''today''] \<and>
   \<not> sorted (map (named_rank \<circ> key)
              (groupConversationsByDate example_now id id [example_bce, example_now]))"
  by code_simp

text \<open>Three dated items: the groups come out as today, yesterday and February 2020.\<close>

theorem C9_dated_witness:
  "map key (groupConversationsByDate example_now id id
              [example_old, example_yesterday, example_now])
     = [''today'', ''yesterday'', ''2020-2''] \<and>
   sorted (map (named_rank \<circ> key)
            (groupConversationsByDate example_now id id
               [example_old, example_yesterday, example_now])) \<and>
   mset (concat (map items (groupConversationsByDate example_now id id
               [example_old, example_yesterday, example_now])))
     = mset [example_old, example_yesterday, example_now]"
proof -
  have h: "\<forall>x \<in> set [example_old, example_yesterday, example_now]. dated (id x)"
    by (simp add: dated_def example_old_def example_yesterday_def example_now_def)
  have k: "map key (groupConversationsByDate example_now id id
              [example_old, example_yesterday, example_now])
     = [''today'', ''yesterday'', ''2020-2'']"
    by code_simp
  from C9_groupConversationsByDate_dated [OF h, of example_now id] k
  show ?thesis by blast
qed

end
